theory Spec2Isabelle
  imports Complex_Main
begin

section \<open>The tiered cache (cache module: MemoryCache, getCache, setCache, clearCache)\<close>

text \<open>
  Values handed to the cache are JavaScript values. The cache code distinguishes
  \<open>undefined\<close> (rejected by \<open>setCache\<close>), \<open>null\<close> (what a miss returns)
  and strings (what the callers store: \<open>JSON.stringify\<close> output).
\<close>

datatype jsvalue = Undefined | Null | Str string

datatype js_error = TypeError | SyntaxError | Error string

text \<open>
  A time-to-live argument is \<open>None\<close> when it is \<open>undefined\<close> or \<open>NaN\<close>
  (both falsy), otherwise a number of seconds. \<open>Date.now()\<close> is an integer number of
  milliseconds and is passed to every operation as \<open>now\<close>.
\<close>

type_synonym ttl = "int option"

definition truthy_num :: "int option \<Rightarrow> bool" where
  "truthy_num n = (case n of None \<Rightarrow> False | Some t \<Rightarrow> t \<noteq> 0)"

subsection \<open>JavaScript Map with string keys: insertion-ordered association list\<close>

text \<open>
  \<open>Map.prototype.set\<close> overwrites the value of a key that is present and keeps its
  position; a new key is appended at the end. \<open>Map.prototype.delete\<close> removes the key.
  Iteration (\<open>keys()\<close>, \<open>entries()\<close>) follows insertion order.
\<close>

fun Map_set :: "('k \<times> 'v) list \<Rightarrow> 'k \<Rightarrow> 'v \<Rightarrow> ('k \<times> 'v) list" where
  "Map_set [] k v = [(k, v)]"
| "Map_set (p # ps) k v = (if fst p = k then (k, v) # ps else p # Map_set ps k v)"

definition Map_delete :: "('k \<times> 'v) list \<Rightarrow> 'k \<Rightarrow> ('k \<times> 'v) list" where
  "Map_delete m k = filter (\<lambda>p. fst p \<noteq> k) m"

definition Map_has :: "('k \<times> 'v) list \<Rightarrow> 'k \<Rightarrow> bool" where
  "Map_has m k = (k \<in> set (map fst m))"

subsection \<open>class MemoryCache\<close>

record item =
  item_value :: jsvalue
  expires :: "int option"

record MemoryCache =
  cache :: "(string \<times> item) list"
  maxSize :: int

text \<open>The constructor; the module's instance is built with \<open>MAX_MEMORY_CACHE_SIZE\<close>
  (1000 unless the environment sets another non-zero integer).\<close>

definition MemoryCache_new :: "int \<Rightarrow> MemoryCache" where
  "MemoryCache_new n = \<lparr>cache = [], maxSize = n\<rparr>"

text \<open>\<open>get(key)\<close>: a miss and an expired entry return \<open>null\<close> (the expired entry is
  deleted); a hit deletes and re-inserts the entry, which moves it to the end.\<close>

definition MemoryCache_get :: "MemoryCache \<Rightarrow> int \<Rightarrow> string \<Rightarrow> jsvalue \<times> MemoryCache" where
  "MemoryCache_get mc now key =
     (case map_of (cache mc) key of
        None \<Rightarrow> (Null, mc)
      | Some it \<Rightarrow>
          if truthy_num (expires it) \<and> the (expires it) < now
          then (Null, mc\<lparr>cache := Map_delete (cache mc) key\<rparr>)
          else (item_value it, mc\<lparr>cache := Map_set (Map_delete (cache mc) key) key it\<rparr>))"

text \<open>\<open>set(key, value, ttlSec)\<close>: when the map holds at least \<open>maxSize\<close> entries the
  first key of the iteration order is deleted (deleting \<open>undefined\<close> from an empty map
  does nothing); then the entry is stored.\<close>

definition MemoryCache_set :: "MemoryCache \<Rightarrow> int \<Rightarrow> string \<Rightarrow> jsvalue \<Rightarrow> ttl \<Rightarrow> MemoryCache" where
  "MemoryCache_set mc now key v ttlSec =
     (let c1 = (if int (length (cache mc)) \<ge> maxSize mc
                then (case cache mc of [] \<Rightarrow> [] | p # ps \<Rightarrow> Map_delete (cache mc) (fst p))
                else cache mc);
          exp = (if truthy_num ttlSec then Some (now + the ttlSec * 1000) else None)
      in mc\<lparr>cache := Map_set c1 key \<lparr>item_value = v, expires = exp\<rparr>\<rparr>)"

definition MemoryCache_delete :: "MemoryCache \<Rightarrow> string \<Rightarrow> bool \<times> MemoryCache" where
  "MemoryCache_delete mc key = (Map_has (cache mc) key, mc\<lparr>cache := Map_delete (cache mc) key\<rparr>)"

definition MemoryCache_clear :: "MemoryCache \<Rightarrow> MemoryCache" where
  "MemoryCache_clear mc = mc\<lparr>cache := []\<rparr>"

definition MemoryCache_size :: "MemoryCache \<Rightarrow> nat" where
  "MemoryCache_size mc = length (cache mc)"

definition item_expired :: "int \<Rightarrow> item \<Rightarrow> bool" where
  "item_expired now it = (truthy_num (expires it) \<and> the (expires it) \<le> now)"

text \<open>\<open>cleanup()\<close>: one pass over the entries deleting those with
  \<open>expires <= now\<close>; returns how many were deleted.\<close>

definition MemoryCache_cleanup :: "MemoryCache \<Rightarrow> int \<Rightarrow> nat \<times> MemoryCache" where
  "MemoryCache_cleanup mc now =
     (length (filter (\<lambda>p. item_expired now (snd p)) (cache mc)),
      mc\<lparr>cache := filter (\<lambda>p. \<not> item_expired now (snd p)) (cache mc)\<rparr>)"

subsection \<open>The durable tier as the module sees it\<close>

text \<open>
  The Redis server is outside the repository. It is a keyed store of strings with an
  optional expiry instant per key; a command either raises (network error, timeout,
  rejected argument) or takes effect. Whether a command raises is an input of each
  operation (\<open>ok = False\<close> means the awaited client call rejects).
\<close>

type_synonym redis_db = "(string \<times> (string \<times> int option)) list"

definition redis_live :: "int \<Rightarrow> (string \<times> int option) \<Rightarrow> bool" where
  "redis_live now e = (case snd e of None \<Rightarrow> True | Some t \<Rightarrow> now < t)"

definition redis_get :: "redis_db \<Rightarrow> int \<Rightarrow> string \<Rightarrow> string option" where
  "redis_get db now key =
     (case map_of db key of
        None \<Rightarrow> None
      | Some e \<Rightarrow> if redis_live now e then Some (fst e) else None)"

text \<open>\<open>client.set(key, value, {EX: ttlSec})\<close>: only a string value can be sent; an
  expiry that is not a positive number of seconds is rejected by the server.\<close>

definition redis_set :: "bool \<Rightarrow> redis_db \<Rightarrow> int \<Rightarrow> string \<Rightarrow> jsvalue \<Rightarrow> ttl \<Rightarrow> redis_db option" where
  "redis_set ok db now key v ttlSec =
     (case v of
        Str s \<Rightarrow>
          (case ttlSec of
             None \<Rightarrow> if ok then Some (Map_set db key (s, None)) else None
           | Some t \<Rightarrow> if ok \<and> 0 < t then Some (Map_set db key (s, Some (now + t * 1000))) else None)
      | _ \<Rightarrow> None)"

record cache_state =
  client :: bool
  isRedisConnected :: bool
  redis :: redis_db
  memoryCache :: MemoryCache

subsection \<open>getCache\<close>

definition memory_get :: "int \<Rightarrow> cache_state \<Rightarrow> string \<Rightarrow> jsvalue \<times> cache_state" where
  "memory_get now st key =
     (let r = MemoryCache_get (memoryCache st) now key
      in (fst r, st\<lparr>memoryCache := snd r\<rparr>))"

text \<open>The Redis read is inside \<open>try\<close>: a rejected call clears \<open>isRedisConnected\<close>
  and falls through to the memory cache, as does a \<open>null\<close> answer.\<close>

definition getCache :: "bool \<Rightarrow> int \<Rightarrow> cache_state \<Rightarrow> string \<Rightarrow> jsvalue \<times> cache_state" where
  "getCache ok now st key =
     (if isRedisConnected st \<and> client st then
        (if ok then
           (case redis_get (redis st) now key of
              Some v \<Rightarrow> (Str v, st)
            | None \<Rightarrow> memory_get now st key)
         else memory_get now (st\<lparr>isRedisConnected := False\<rparr>) key)
      else memory_get now st key)"

subsection \<open>setCache\<close>

text \<open>\<open>value.length\<close>, evaluated while building the debug log record: reading a
  property of \<open>null\<close> raises TypeError.\<close>

definition value_length :: "jsvalue \<Rightarrow> js_error + nat" where
  "value_length v = (case v of Str s \<Rightarrow> Inr (length s) | _ \<Rightarrow> Inl TypeError)"

text \<open>The memory-cache branch at the end of \<open>setCache\<close>: the store happens first,
  then the log record is built, outside any \<open>try\<close>.\<close>

definition memory_set :: "int \<Rightarrow> cache_state \<Rightarrow> string \<Rightarrow> jsvalue \<Rightarrow> ttl \<Rightarrow> (js_error + bool) \<times> cache_state" where
  "memory_set now st key v ttlSec =
     (let st' = st\<lparr>memoryCache := MemoryCache_set (memoryCache st) now key v ttlSec\<rparr>
      in (case value_length v of Inl e \<Rightarrow> (Inl e, st') | Inr n \<Rightarrow> (Inr True, st')))"

definition setCache :: "bool \<Rightarrow> int \<Rightarrow> cache_state \<Rightarrow> string \<Rightarrow> jsvalue \<Rightarrow> ttl \<Rightarrow> (js_error + bool) \<times> cache_state" where
  "setCache ok now st key v ttlSec =
     (if key = [] \<or> v = Undefined then (Inr False, st)
      else if isRedisConnected st \<and> client st then
        (case redis_set ok (redis st) now key v ttlSec of
           None \<Rightarrow> memory_set now (st\<lparr>isRedisConnected := False\<rparr>) key v ttlSec
         | Some db \<Rightarrow>
             (case value_length v of
                Inl e \<Rightarrow> memory_set now (st\<lparr>redis := db, isRedisConnected := False\<rparr>) key v ttlSec
              | Inr n \<Rightarrow>
                  (Inr True,
                   st\<lparr>redis := db,
                      memoryCache := MemoryCache_set (memoryCache st) now key v ttlSec\<rparr>)))
      else memory_set now st key v ttlSec)"

subsection \<open>clearCache\<close>

text \<open>
  Two library matchers are inputs of \<open>clearCache\<close>: \<open>keys_match p k\<close> says whether
  the server's \<open>KEYS p\<close> lists the key \<open>k\<close>, and \<open>RegExp_new src\<close> is the test function
  of \<open>new RegExp(src)\<close>, or \<open>None\<close> when the constructor raises SyntaxError.
  \<open>pattern.replace(/\*/g, '.*')\<close> is \<open>replace_star\<close>.
\<close>

definition replace_star :: "string \<Rightarrow> string" where
  "replace_star p = concat (map (\<lambda>c. if c = CHR ''*'' then ''.*'' else [c]) p)"

definition truthy_str :: "string option \<Rightarrow> bool" where
  "truthy_str p = (case p of None \<Rightarrow> False | Some s \<Rightarrow> s \<noteq> [])"

text \<open>The Redis half: only when connected and a pattern is given. \<open>keys\<close> and \<open>del\<close>
  are two awaited calls; if either rejects the error is logged and the count so far kept.\<close>

definition clear_redis ::
  "(string \<Rightarrow> string \<Rightarrow> bool) \<Rightarrow> bool \<Rightarrow> bool \<Rightarrow> cache_state \<Rightarrow> string option \<Rightarrow> nat \<times> cache_state" where
  "clear_redis keys_match keys_ok del_ok st pattern =
     (if isRedisConnected st \<and> client st \<and> truthy_str pattern then
        (if \<not> keys_ok then (0, st)
         else
           (let ks = filter (keys_match (the pattern)) (map fst (redis st))
            in if ks = [] then (0, st)
               else if \<not> del_ok then (0, st)
               else (length ks, st\<lparr>redis := filter (\<lambda>p. fst p \<notin> set ks) (redis st)\<rparr>)))
      else (0, st))"

definition clearCache ::
  "(string \<Rightarrow> string \<Rightarrow> bool) \<Rightarrow> (string \<Rightarrow> (string \<Rightarrow> bool) option) \<Rightarrow> bool \<Rightarrow> bool \<Rightarrow>
     cache_state \<Rightarrow> string option \<Rightarrow> (js_error + nat) \<times> cache_state" where
  "clearCache keys_match RegExp_new keys_ok del_ok st pattern =
     (let r = clear_redis keys_match keys_ok del_ok st pattern;
          cleared = fst r; st1 = snd r;
          mc = memoryCache st1
      in if truthy_str pattern then
           (case RegExp_new (replace_star (the pattern)) of
              None \<Rightarrow> (Inl SyntaxError, st1)
            | Some test \<Rightarrow>
                (Inr (cleared + length (filter (\<lambda>p. test (fst p)) (cache mc))),
                 st1\<lparr>memoryCache := mc\<lparr>cache := filter (\<lambda>p. \<not> test (fst p)) (cache mc)\<rparr>\<rparr>))
         else (Inr (cleared + MemoryCache_size mc),
               st1\<lparr>memoryCache := MemoryCache_clear mc\<rparr>))"

text \<open>
  Instances of the two library matchers on a fragment, used to run \<open>clearCache\<close> on
  concrete keys. \<open>star_match\<close> is how \<open>KEYS\<close> reads a pattern whose only wildcard is
  \<open>*\<close> (anchored at both ends; it is used on patterns without \<open>?\<close>, brackets
  or backslash, which the server reads as wildcards too). \<open>RegExp_fragment\<close> is \<open>new RegExp(src).test\<close> for
  a source built from ordinary characters, \<open>.\<close> and \<open>.*\<close> only
  (\<open>fragment_source\<close>): an unanchored search in which \<open>.\<close> stands for any character
  but a line break. On any other source (another operator of the regular-expression
  syntax, which the library may accept with its own meaning or refuse) the instance is
  left unspecified, and nothing is evaluated or proved there.
\<close>

fun star_match :: "string \<Rightarrow> string \<Rightarrow> bool" where
  "star_match [] k = (k = [])"
| "star_match (c # p) [] = (c = CHR ''*'' \<and> star_match p [])"
| "star_match (c # p) (d # k) =
     (if c = CHR ''*'' then star_match p (d # k) \<or> star_match (c # p) k
      else c = d \<and> star_match p k)"

datatype re_tok = Lit char | AnyChar | AnyStar

fun re_tokens :: "string \<Rightarrow> re_tok list" where
  "re_tokens [] = []"
| "re_tokens [c] = [if c = CHR ''.'' then AnyChar else Lit c]"
| "re_tokens (c # d # r) =
     (if c = CHR ''.'' then
        (if d = CHR ''*'' then AnyStar # re_tokens r else AnyChar # re_tokens (d # r))
      else Lit c # re_tokens (d # r))"

definition line_break :: "char \<Rightarrow> bool" where
  "line_break c = (c = CHR 0x0A \<or> c = CHR 0x0D)"

fun re_prefix :: "re_tok list \<Rightarrow> string \<Rightarrow> bool" where
  "re_prefix [] k = True"
| "re_prefix (Lit c # ts) [] = False"
| "re_prefix (Lit c # ts) (d # k) = (c = d \<and> re_prefix ts k)"
| "re_prefix (AnyChar # ts) [] = False"
| "re_prefix (AnyChar # ts) (d # k) = (\<not> line_break d \<and> re_prefix ts k)"
| "re_prefix (AnyStar # ts) [] = re_prefix ts []"
| "re_prefix (AnyStar # ts) (d # k) =
     (re_prefix ts (d # k) \<or> (\<not> line_break d \<and> re_prefix (AnyStar # ts) k))"

fun re_search :: "re_tok list \<Rightarrow> string \<Rightarrow> bool" where
  "re_search ts [] = re_prefix ts []"
| "re_search ts (d # k) = (re_prefix ts (d # k) \<or> re_search ts k)"

definition regex_syntax :: "char \<Rightarrow> bool" where
  "regex_syntax c = (c = CHR 0x5C \<or> c \<in> set ''^$.*+?()[]{}|'')"

fun fragment_source :: "string \<Rightarrow> bool" where
  "fragment_source [] = True"
| "fragment_source [c] = (c = CHR ''.'' \<or> \<not> regex_syntax c)"
| "fragment_source (c # d # r) =
     (if c = CHR ''.'' then
        (if d = CHR ''*'' then fragment_source r else fragment_source (d # r))
      else \<not> regex_syntax c \<and> fragment_source (d # r))"

definition RegExp_fragment :: "string \<Rightarrow> (string \<Rightarrow> bool) option" where
  "RegExp_fragment src =
     (if fragment_source src then Some (re_search (re_tokens src)) else undefined)"

subsection \<open>Sequences of memory-cache operations\<close>

text \<open>The operations a caller can apply to the memory cache, each with the clock reading
  it runs at, and the state reached by applying a list of them in order.\<close>

datatype cache_op = OpGet string int | OpSet string jsvalue ttl int | OpDelete string | OpClear | OpCleanup int

fun apply_op :: "MemoryCache \<Rightarrow> cache_op \<Rightarrow> MemoryCache" where
  "apply_op mc (OpGet k now) = snd (MemoryCache_get mc now k)"
| "apply_op mc (OpSet k v t now) = MemoryCache_set mc now k v t"
| "apply_op mc (OpDelete k) = snd (MemoryCache_delete mc k)"
| "apply_op mc OpClear = MemoryCache_clear mc"
| "apply_op mc (OpCleanup now) = snd (MemoryCache_cleanup mc now)"

definition run_ops :: "MemoryCache \<Rightarrow> cache_op list \<Rightarrow> MemoryCache" where
  "run_ops mc ops = foldl apply_op mc ops"

definition bounded :: "MemoryCache \<Rightarrow> bool" where
  "bounded mc = (int (length (cache mc)) \<le> maxSize mc)"

text \<open>Storing a list of entries one after the other.\<close>

definition set_ops :: "(string \<times> jsvalue \<times> ttl \<times> int) list \<Rightarrow> cache_op list" where
  "set_ops xs = map (\<lambda>(k, v, t, now). OpSet k v t now) xs"

subsection \<open>Least-recently-used order, in the specification's words\<close>

text \<open>
  The order of use the specification speaks of, written from its words and not from the
  code: every set and every get that hits is a use of its key, and a use makes the key
  the most recently used one. \<open>lru_order uses\<close> lists the keys that were used, the
  least recently used first.
\<close>

definition lru_touch :: "string list \<Rightarrow> string \<Rightarrow> string list" where
  "lru_touch order k = filter (\<lambda>j. j \<noteq> k) order @ [k]"

definition lru_order :: "string list \<Rightarrow> string list" where
  "lru_order uses = foldl lru_touch [] uses"

section \<open>Source selection (feed.js)\<close>

subsection \<open>JavaScript numbers\<close>

text \<open>
  A JavaScript number is a finite double, \<open>NaN\<close> or an infinity. Finite doubles are
  modelled by real numbers with exact arithmetic: rounding, overflow and the sign of zero
  are not modelled. An argument of \<open>pickSources\<close> is a number, or a value of another
  type: \<open>undefined\<close>, \<open>null\<close> or a string, or a value that \<open>JSON.stringify\<close>
  refuses with a TypeError, namely a BigInt or an object that contains itself.
\<close>

datatype jsnum = Fin real | NaN | PosInf | NegInf

datatype jscoord = Number jsnum | NonNumber jsvalue | BigInt int | Circular

definition is_number :: "jscoord \<Rightarrow> bool" where
  "is_number c = (case c of Number n \<Rightarrow> True | _ \<Rightarrow> False)"

text \<open>
  The logger (logger module) formats every record with \<open>JSON.stringify\<close> over the
  message's metadata. A record that carries the raw coordinates raises TypeError when a
  coordinate is a BigInt or circular; numbers (also \<open>NaN\<close> and the infinities),
  \<open>undefined\<close>, \<open>null\<close> and strings are written.
\<close>

definition loggable :: "jscoord \<Rightarrow> bool" where
  "loggable c = (case c of BigInt n \<Rightarrow> False | Circular \<Rightarrow> False | _ \<Rightarrow> True)"

fun num_neg :: "jsnum \<Rightarrow> jsnum" where
  "num_neg (Fin a) = Fin (- a)"
| "num_neg NaN = NaN"
| "num_neg PosInf = NegInf"
| "num_neg NegInf = PosInf"

fun num_sub :: "jsnum \<Rightarrow> jsnum \<Rightarrow> jsnum" where
  "num_sub (Fin a) (Fin b) = Fin (a - b)"
| "num_sub NaN b = NaN"
| "num_sub a NaN = NaN"
| "num_sub PosInf PosInf = NaN"
| "num_sub NegInf NegInf = NaN"
| "num_sub PosInf b = PosInf"
| "num_sub NegInf b = NegInf"
| "num_sub (Fin a) PosInf = NegInf"
| "num_sub (Fin a) NegInf = PosInf"

fun num_add :: "jsnum \<Rightarrow> jsnum \<Rightarrow> jsnum" where
  "num_add (Fin a) (Fin b) = Fin (a + b)"
| "num_add NaN b = NaN"
| "num_add a NaN = NaN"
| "num_add PosInf NegInf = NaN"
| "num_add NegInf PosInf = NaN"
| "num_add PosInf b = PosInf"
| "num_add NegInf b = NegInf"
| "num_add (Fin a) PosInf = PosInf"
| "num_add (Fin a) NegInf = NegInf"

definition inf_of_sign :: "bool \<Rightarrow> jsnum" where
  "inf_of_sign positive = (if positive then PosInf else NegInf)"

fun num_mul :: "jsnum \<Rightarrow> jsnum \<Rightarrow> jsnum" where
  "num_mul (Fin a) (Fin b) = Fin (a * b)"
| "num_mul NaN b = NaN"
| "num_mul a NaN = NaN"
| "num_mul PosInf PosInf = PosInf"
| "num_mul NegInf NegInf = PosInf"
| "num_mul PosInf NegInf = NegInf"
| "num_mul NegInf PosInf = NegInf"
| "num_mul PosInf (Fin b) = (if b = 0 then NaN else inf_of_sign (0 < b))"
| "num_mul NegInf (Fin b) = (if b = 0 then NaN else inf_of_sign (b < 0))"
| "num_mul (Fin a) PosInf = (if a = 0 then NaN else inf_of_sign (0 < a))"
| "num_mul (Fin a) NegInf = (if a = 0 then NaN else inf_of_sign (a < 0))"

fun num_sqrt :: "jsnum \<Rightarrow> jsnum" where
  "num_sqrt (Fin a) = (if a < 0 then NaN else Fin (sqrt a))"
| "num_sqrt NaN = NaN"
| "num_sqrt PosInf = PosInf"
| "num_sqrt NegInf = NaN"

fun num_le :: "jsnum \<Rightarrow> jsnum \<Rightarrow> bool" where
  "num_le (Fin a) (Fin b) = (a \<le> b)"
| "num_le NaN b = False"
| "num_le a NaN = False"
| "num_le NegInf b = True"
| "num_le a PosInf = True"
| "num_le PosInf b = False"
| "num_le a NegInf = False"

subsection \<open>The catalog\<close>

text \<open>A catalog record as the selection code reads it (\<open>language\<close> and \<open>country\<close>
  are never read by the selection and are left out).\<close>

record source =
  src_id :: string
  src_name :: string
  src_x :: real
  src_y :: real
  src_category :: string
  src_active :: bool

text \<open>A record of the parsed JSON file: a field is \<open>None\<close> when it is missing or not
  of the type that \<open>validateSources\<close> asks for.\<close>

record raw_source =
  raw_id :: "string option"
  raw_name :: "string option"
  raw_x :: "real option"
  raw_y :: "real option"
  raw_category :: "string option"
  raw_active :: "bool option"

text \<open>The default of \<open>MAX_SEARCH_RADIUS\<close> (the environment may set another value).\<close>

definition MAX_SEARCH_RADIUS :: real where
  "MAX_SEARCH_RADIUS = 2"

definition raw_valid :: "raw_source \<Rightarrow> bool" where
  "raw_valid r =
     (truthy_str (raw_id r) \<and> truthy_str (raw_name r) \<and> raw_x r \<noteq> None \<and> raw_y r \<noteq> None
      \<and> \<not> (the (raw_x r) < -1 \<or> the (raw_x r) > 1 \<or> the (raw_y r) < -1 \<or> the (raw_y r) > 1))"

definition raw_defaults :: "raw_source \<Rightarrow> source" where
  "raw_defaults r =
     \<lparr>src_id = the (raw_id r), src_name = the (raw_name r),
      src_x = the (raw_x r), src_y = the (raw_y r),
      src_category = (if truthy_str (raw_category r) then the (raw_category r) else ''general''),
      src_active = (raw_active r \<noteq> Some False)\<rparr>"

text \<open>\<open>validateSources\<close>: invalid and inactive records are dropped; fewer than
  \<open>MIN_SOURCES_COUNT\<close> survivors raise; duplicate ids are counted and logged, and the
  records are all returned. The file content is \<open>None\<close> when it is not an array.\<close>

definition validateSources :: "int \<Rightarrow> raw_source list option \<Rightarrow> js_error + source list" where
  "validateSources MIN_SOURCES_COUNT sourcesData =
     (case sourcesData of
        None \<Rightarrow> Inl (Error ''Sources data must be an array'')
      | Some rs \<Rightarrow>
          (let validSources = filter src_active (map raw_defaults (filter raw_valid rs))
           in if int (length validSources) < MIN_SOURCES_COUNT
              then Inl (Error ''Insufficient valid sources'')
              else Inr validSources))"

definition getDefaultSources :: "source list" where
  "getDefaultSources =
     [\<lparr>src_id = ''bbc-news'', src_name = ''BBC News'', src_x = - 0.2, src_y = 0.1,
       src_category = ''general'', src_active = True\<rparr>,
      \<lparr>src_id = ''cnn'', src_name = ''CNN'', src_x = - 0.5, src_y = 0.3,
       src_category = ''general'', src_active = True\<rparr>,
      \<lparr>src_id = ''fox-news'', src_name = ''Fox News'', src_x = 0.7, src_y = - 0.2,
       src_category = ''general'', src_active = True\<rparr>,
      \<lparr>src_id = ''reuters'', src_name = ''Reuters'', src_x = 0.1, src_y = 0.4,
       src_category = ''general'', src_active = True\<rparr>,
      \<lparr>src_id = ''associated-press'', src_name = ''Associated Press'', src_x = 0.0, src_y = 0.2,
       src_category = ''general'', src_active = True\<rparr>,
      \<lparr>src_id = ''usa-today'', src_name = ''USA Today'', src_x = 0.0, src_y = 0.0,
       src_category = ''general'', src_active = True\<rparr>]"

text \<open>\<open>loadSources\<close>: the result is what is assigned to the module variable
  \<open>sources\<close>. A file that cannot be read or parsed, and a failed validation, both end
  in the \<open>catch\<close> that installs the default sources.\<close>

definition loadSources :: "int \<Rightarrow> raw_source list option \<Rightarrow> source list" where
  "loadSources MIN_SOURCES_COUNT file =
     (case validateSources MIN_SOURCES_COUNT file of
        Inl e \<Rightarrow> getDefaultSources
      | Inr validated \<Rightarrow> validated)"

subsection \<open>findClosestSources\<close>

record candidate = source +
  distance :: jsnum

definition with_distance :: "source \<Rightarrow> jsnum \<Rightarrow> candidate" where
  "with_distance s d =
     \<lparr>src_id = src_id s, src_name = src_name s, src_x = src_x s, src_y = src_y s,
      src_category = src_category s, src_active = src_active s, distance = d\<rparr>"

text \<open>\<open>calculateDistance(targetPoint, source)\<close>. The guard that returns
  \<open>Infinity\<close> for a missing or non-numeric coordinate cannot fire here: the target
  has passed the \<open>typeof\<close> check and a catalog record has numeric coordinates.\<close>

definition calculateDistance :: "jsnum \<times> jsnum \<Rightarrow> source \<Rightarrow> jsnum" where
  "calculateDistance pointA pointB =
     (let dx = num_sub (fst pointA) (Fin (src_x pointB));
          dy = num_sub (snd pointA) (Fin (src_y pointB))
      in num_sqrt (num_add (num_mul dx dx) (num_mul dy dy)))"

text \<open>The comparator \<open>a.distance - b.distance\<close> is applied after the radius filter,
  where every distance is finite; \<open>Array.prototype.sort\<close> is stable.\<close>

definition distance_key :: "candidate \<Rightarrow> real" where
  "distance_key c = (case distance c of Fin d \<Rightarrow> d | _ \<Rightarrow> 0)"

definition eligible :: "string list \<Rightarrow> string option \<Rightarrow> source \<Rightarrow> bool" where
  "eligible excludeIds categoryFilter s =
     (if src_id s \<in> set excludeIds then False
      else if truthy_str categoryFilter \<and> src_category s \<noteq> the categoryFilter then False
      else src_active s)"

text \<open>The body of the \<open>try\<close> block of \<open>findClosestSources\<close> once the
  coordinates have passed its \<open>typeof\<close> check; nothing in it raises.\<close>

definition findClosestSources_try ::
  "source list \<Rightarrow> jsnum \<Rightarrow> jsnum \<Rightarrow> nat \<Rightarrow> string list \<Rightarrow> string option \<Rightarrow> candidate list" where
  "findClosestSources_try sources nx ny n excludeIds categoryFilter =
     take n
       (sort_key distance_key
         (filter (\<lambda>c. num_le (distance c) (Fin MAX_SEARCH_RADIUS))
           (map (\<lambda>s. with_distance s (calculateDistance (nx, ny) s))
             (filter (eligible excludeIds categoryFilter) sources))))"

text \<open>\<open>findClosestSources\<close>: a coordinate that is not a number raises inside the
  \<open>try\<close>; the \<open>catch\<close> logs the raw coordinates (which raises if one of them
  cannot be written) and returns the empty array.\<close>

definition findClosestSources ::
  "source list \<Rightarrow> jscoord \<Rightarrow> jscoord \<Rightarrow> nat \<Rightarrow> string list \<Rightarrow> string option
     \<Rightarrow> js_error + candidate list" where
  "findClosestSources sources x y n excludeIds categoryFilter =
     (case x of
        Number nx \<Rightarrow>
          (case y of
             Number ny \<Rightarrow> Inr (findClosestSources_try sources nx ny n excludeIds categoryFilter)
           | _ \<Rightarrow> if loggable x \<and> loggable y then Inr [] else Inl TypeError)
      | _ \<Rightarrow> if loggable x \<and> loggable y then Inr [] else Inl TypeError)"

subsection \<open>ensureSourceDiversity\<close>

datatype side = friendly | opposing | neutral

record selected = candidate +
  side :: side
  isFallback :: bool

definition with_side :: "side \<Rightarrow> bool \<Rightarrow> candidate \<Rightarrow> selected" where
  "with_side sd fb c =
     \<lparr>src_id = src_id c, src_name = src_name c, src_x = src_x c, src_y = src_y c,
      src_category = src_category c, src_active = src_active c, distance = distance c,
      side = sd, isFallback = fb\<rparr>"

text \<open>String helpers of \<open>extractOrganization\<close>, for ASCII names:
  \<open>toLowerCase\<close>, the class \<open>\s\<close>, the replacement of
  \<open>/\s+(news|media|network|corporation|inc|corp|llc)$/i\<close> (the last word, when it is
  one of the list and white space precedes it, is cut together with that white space),
  the replacement of \<open>/^(the|a|an)\s+/i\<close> and \<open>trim\<close>.\<close>

definition toLowerCase :: "string \<Rightarrow> string" where
  "toLowerCase s =
     map (\<lambda>c. let n = (of_char c :: nat) in if 65 \<le> n \<and> n \<le> 90 then char_of (n + 32) else c) s"

definition is_space :: "char \<Rightarrow> bool" where
  "is_space c = (c \<in> set [CHR '' '', CHR 0x09, CHR 0x0A, CHR 0x0B, CHR 0x0C, CHR 0x0D])"

definition strip_org_suffix :: "string \<Rightarrow> string" where
  "strip_org_suffix s =
     (let r = rev s;
          word = rev (takeWhile (\<lambda>c. \<not> is_space c) r);
          before = dropWhile (\<lambda>c. \<not> is_space c) r
      in if word \<in> set [''news'', ''media'', ''network'', ''corporation'', ''inc'', ''corp'', ''llc'']
            \<and> before \<noteq> []
         then rev (dropWhile is_space before) else s)"

definition strip_article_prefix :: "string \<Rightarrow> string" where
  "strip_article_prefix s =
     (let word = takeWhile (\<lambda>c. \<not> is_space c) s;
          after = dropWhile (\<lambda>c. \<not> is_space c) s
      in if word \<in> set [''the'', ''a'', ''an''] \<and> after \<noteq> []
         then dropWhile is_space after else s)"

definition trim :: "string \<Rightarrow> string" where
  "trim s = rev (dropWhile is_space (rev (dropWhile is_space s)))"

definition extractOrganization :: "string \<Rightarrow> string" where
  "extractOrganization sourceName = trim (strip_article_prefix (strip_org_suffix (toLowerCase sourceName)))"

definition diversityKey :: "selected \<Rightarrow> string" where
  "diversityKey s =
     extractOrganization (src_name s) @ '':'' @
     (if src_category s = [] then ''general'' else src_category s)"

text \<open>The first loop keeps a source when its key is new or fewer than two are kept.\<close>

fun diversity_pass :: "selected list \<Rightarrow> string list \<Rightarrow> selected list \<Rightarrow> selected list" where
  "diversity_pass [] seen diverse = diverse"
| "diversity_pass (s # ss) seen diverse =
     (if diversityKey s \<notin> set seen \<or> length diverse < 2
      then diversity_pass ss (diversityKey s # seen) (diverse @ [s])
      else diversity_pass ss seen diverse)"

text \<open>The second loop appends the sources whose id is not yet kept, and stops as soon
  as as many are kept as came in (\<open>n\<close> is \<open>sources.length\<close>).\<close>

fun fill_pass :: "nat \<Rightarrow> selected list \<Rightarrow> selected list \<Rightarrow> selected list" where
  "fill_pass n [] diverse = diverse"
| "fill_pass n (s # ss) diverse =
     (if length diverse \<ge> n then diverse
      else if list_ex (\<lambda>d. src_id d = src_id s) diverse then fill_pass n ss diverse
      else fill_pass n ss (diverse @ [s]))"

definition ensureSourceDiversity :: "selected list \<Rightarrow> selected list" where
  "ensureSourceDiversity sources = fill_pass (length sources) sources (diversity_pass sources [] [])"

subsection \<open>pickSources\<close>

text \<open>The options object: a property is \<open>None\<close> when it is \<open>undefined\<close>, in which
  case the destructuring default applies. The counts are natural numbers.
  \<open>stringifies\<close> says whether \<open>JSON.stringify\<close> accepts the object as a whole: it
  is \<open>False\<close> when the object contains itself or holds a BigInt in some other
  property.\<close>

record options =
  friendlyCount :: "nat option"
  opposingCount :: "nat option"
  categoryFilter :: "string option"
  ensureDiversity :: "bool option"
  fallbackStrategy :: "string option"
  stringifies :: bool

text \<open>The default \<open>{}\<close> of the \<open>options\<close> parameter.\<close>

definition default_options :: options where
  "default_options = \<lparr>friendlyCount = None, opposingCount = None, categoryFilter = None,
                      ensureDiversity = None, fallbackStrategy = None, stringifies = True\<rparr>"

definition options_loggable :: "options option \<Rightarrow> bool" where
  "options_loggable opts = (case opts of None \<Rightarrow> True | Some options \<Rightarrow> stringifies options)"

text \<open>What \<open>pickSources\<close> returns. \<open>out_isEmergencyFallback\<close> is \<open>False\<close> when
  the property is absent (the emergency list alone sets it; its \<open>active\<close> property is
  left out).\<close>

record picked =
  out_id :: string
  out_name :: string
  out_side :: side
  out_x :: real
  out_y :: real
  out_distance :: jsnum
  out_category :: string
  out_isFallback :: bool
  out_isEmergencyFallback :: bool

definition final_source :: "selected \<Rightarrow> picked" where
  "final_source s =
     \<lparr>out_id = src_id s, out_name = src_name s, out_side = side s, out_x = src_x s,
      out_y = src_y s, out_distance = distance s, out_category = src_category s,
      out_isFallback = isFallback s, out_isEmergencyFallback = False\<rparr>"

definition getEmergencyFallbackSources :: "picked list" where
  "getEmergencyFallbackSources =
     map (\<lambda>(index, s).
            \<lparr>out_id = src_id s, out_name = src_name s,
             out_side = (if index < 2 then friendly else opposing),
             out_x = src_x s, out_y = src_y s, out_distance = Fin 0,
             out_category = src_category s, out_isFallback = True,
             out_isEmergencyFallback = True\<rparr>)
         (enumerate (0::nat) (take 4 getDefaultSources))"

text \<open>
  The body of the \<open>try\<close> block of \<open>pickSources\<close>. \<open>loaded\<close> is what
  \<open>loadSources()\<close> installs if it is called (it is called when the catalog is empty);
  the second component of the result is the catalog after the call. The options argument
  is \<open>None\<close> when the caller passes \<open>null\<close>, whose destructuring raises TypeError.
  The \<open>typeof\<close> check raises unless both coordinates are numbers, so the opposing
  point \<open>(-x, -y)\<close> is computed on numbers only. Whatever a call of
  \<open>findClosestSources\<close> raises leaves the block at once.
\<close>

definition pickSources_try ::
  "source list \<Rightarrow> source list \<Rightarrow> jscoord \<Rightarrow> jscoord \<Rightarrow> options option
     \<Rightarrow> (js_error + picked list) \<times> source list" where
  "pickSources_try loaded sources x y opts =
     (case opts of
        None \<Rightarrow> (Inl TypeError, sources)
      | Some options \<Rightarrow>
          (let fc = (case friendlyCount options of None \<Rightarrow> 2 | Some n \<Rightarrow> n);
               oc = (case opposingCount options of None \<Rightarrow> 2 | Some n \<Rightarrow> n);
               cf = categoryFilter options;
               ed = (case ensureDiversity options of None \<Rightarrow> True | Some b \<Rightarrow> b);
               fs = (case fallbackStrategy options of None \<Rightarrow> ''fill_remaining'' | Some s \<Rightarrow> s)
           in case (x, y) of
                (Number nx, Number ny) \<Rightarrow>
                  (let srcs = (if sources = [] then loaded else sources)
                   in case findClosestSources srcs (Number nx) (Number ny) fc [] cf of
                        Inl e \<Rightarrow> (Inl e, srcs)
                      | Inr friendlySources \<Rightarrow>
                          (let usedSourceIds = map src_id friendlySources
                           in case findClosestSources srcs (Number (num_neg nx)) (Number (num_neg ny))
                                     oc usedSourceIds cf of
                                Inl e \<Rightarrow> (Inl e, srcs)
                              | Inr opposingSources \<Rightarrow>
                                  (let allSources = map (with_side friendly False) friendlySources
                                                    @ map (with_side opposing False) opposingSources;
                                       totalRequested = fc + oc
                                   in case
                                        (if length allSources < totalRequested \<and> fs = ''fill_remaining''
                                         then
                                           (case findClosestSources srcs (Number (Fin 0)) (Number (Fin 0))
                                                   (totalRequested - length allSources)
                                                   (map src_id allSources) cf of
                                              Inl e \<Rightarrow> Inl e
                                            | Inr fallbackSources \<Rightarrow>
                                                Inr (allSources @
                                                     map (with_side neutral True) fallbackSources))
                                         else Inr allSources) of
                                        Inl e \<Rightarrow> (Inl e, srcs)
                                      | Inr allSources1 \<Rightarrow>
                                          (let allSources2 =
                                                 (if ed \<and> length allSources1 > 1
                                                  then ensureSourceDiversity allSources1
                                                  else allSources1)
                                           in (Inr (map final_source (take totalRequested allSources2)),
                                               srcs)))))
              | _ \<Rightarrow> (Inl (Error ''Invalid bias coordinates''), sources)))"

text \<open>
  \<open>pickSources\<close>: whatever is raised inside the \<open>try\<close> is caught. The \<open>catch\<close>
  first logs the error together with the raw \<open>x\<close>, \<open>y\<close> and \<open>options\<close>; if the
  logger cannot write one of them it raises TypeError, and nothing catches that.
  Otherwise the emergency list is returned.
\<close>

definition pickSources ::
  "source list \<Rightarrow> source list \<Rightarrow> jscoord \<Rightarrow> jscoord \<Rightarrow> options option
     \<Rightarrow> (js_error + picked list) \<times> source list" where
  "pickSources loaded sources x y opts =
     (case pickSources_try loaded sources x y opts of
        (Inl e, srcs) \<Rightarrow>
          if loggable x \<and> loggable y \<and> options_loggable opts
          then (Inr getEmergencyFallbackSources, srcs)
          else (Inl TypeError, srcs)
      | (Inr finalSources, srcs) \<Rightarrow> (Inr finalSources, srcs))"

subsection \<open>Notions used to state the selection properties\<close>

text \<open>A source lies within the search radius of a (finite) point.\<close>

definition in_radius :: "real \<Rightarrow> real \<Rightarrow> source \<Rightarrow> bool" where
  "in_radius a b s = (sqrt ((a - src_x s) * (a - src_x s) + (b - src_y s) * (b - src_y s)) \<le> 2)"

text \<open>The catalog invariant that \<open>validateSources\<close> establishes for coordinates,
  and the uniqueness of ids that the data model asks for, both on the active records.\<close>

definition coords_in_range :: "source list \<Rightarrow> bool" where
  "coords_in_range cat =
     list_all (\<lambda>s. - 1 \<le> src_x s \<and> src_x s \<le> 1 \<and> - 1 \<le> src_y s \<and> src_y s \<le> 1)
       (filter src_active cat)"

definition unique_ids :: "source list \<Rightarrow> bool" where
  "unique_ids cat = distinct (map src_id (filter src_active cat))"

definition count_or_default :: "nat option \<Rightarrow> nat" where
  "count_or_default c = (case c of None \<Rightarrow> 2 | Some n \<Rightarrow> n)"

text \<open>Shorthand for an active catalog record of category \<open>general\<close>.\<close>

abbreviation (input) src :: "string \<Rightarrow> string \<Rightarrow> real \<Rightarrow> real \<Rightarrow> source" where
  "src i n u v \<equiv>
     \<lparr>src_id = i, src_name = n, src_x = u, src_y = v, src_category = ''general'', src_active = True\<rparr>"

section \<open>Feed assembly (the /feed handler)\<close>

text \<open>An article as the handler reads it: \<open>art_source\<close> is \<open>a.source.id\<close> when the
  article has a source with a string id, otherwise \<open>None\<close>.\<close>

record article =
  art_url :: string
  art_title :: string
  art_urlToImage :: string
  art_publishedAt :: string
  art_description :: string
  art_source :: "string option"

text \<open>A feed card; \<open>card_isFallback\<close> is \<open>False\<close> when the property is absent.\<close>

record card =
  articleId :: string
  title :: string
  sourceId :: string
  sourceName :: string
  imageUrl :: string
  url :: string
  publishedAt :: string
  card_side :: side
  description :: string
  card_isFallback :: bool

definition make_card :: "picked \<Rightarrow> article \<Rightarrow> bool \<Rightarrow> card" where
  "make_card s a fb =
     \<lparr>articleId = art_url a, title = art_title a, sourceId = out_id s, sourceName = out_name s,
      imageUrl = art_urlToImage a, url = art_url a, publishedAt = art_publishedAt a,
      card_side = out_side s, description = art_description a, card_isFallback = fb\<rparr>"

text \<open>The loop over the selected sources: \<open>cards\<close> and \<open>usedArticles\<close> are the two
  accumulators. A source takes the first unused article of its own id, else the first
  unused article at all (marked as fallback), else it gets no card.\<close>

fun build_cards :: "picked list \<Rightarrow> article list \<Rightarrow> card list \<Rightarrow> string list \<Rightarrow> card list" where
  "build_cards [] articles cards usedArticles = cards"
| "build_cards (s # ss) articles cards usedArticles =
     (case find (\<lambda>a. art_source a = Some (out_id s) \<and> art_url a \<notin> set usedArticles) articles of
        Some art \<Rightarrow>
          build_cards ss articles (cards @ [make_card s art False]) (art_url art # usedArticles)
      | None \<Rightarrow>
          (case find (\<lambda>a. art_url a \<notin> set usedArticles) articles of
             Some fallbackArticle \<Rightarrow>
               build_cards ss articles (cards @ [make_card s fallbackArticle True])
                 (art_url fallbackArticle # usedArticles)
           | None \<Rightarrow> build_cards ss articles cards usedArticles))"

text \<open>
  What the handler takes from outside the repository and from the process, for one
  request: library functions (\<open>toFixed(3)\<close>, \<open>JSON.parse\<close> succeeding or raising,
  \<open>JSON.stringify\<close>, \<open>parseInt\<close> with \<open>None\<close> for \<open>NaN\<close>), the article
  provider (\<open>getArticlesBySources\<close> either returns the articles or raises), the
  environment variable \<open>CACHE_TTL_FEED\<close>, whether the Redis calls of this request
  succeed, the clock readings at the cache read and at the cache write, and what
  \<open>loadSources()\<close> would install.
\<close>

record feed_env =
  toFixed3 :: "real \<Rightarrow> string"
  JSON_parses :: "string \<Rightarrow> bool"
  JSON_stringify :: "card list \<Rightarrow> string"
  parseInt :: "string \<Rightarrow> int option"
  getArticlesBySources :: "string list \<Rightarrow> js_error + article list"
  CACHE_TTL_FEED :: "string option"
  redis_get_ok :: bool
  redis_set_ok :: bool
  now_get :: int
  now_set :: int
  loaded_sources :: "source list"

datatype response =
    Status400
  | JsonCached string
  | JsonCards "card list"
  | Status500

definition truthy_value :: "jsvalue \<Rightarrow> bool" where
  "truthy_value v = (case v of Str s \<Rightarrow> s \<noteq> [] | _ \<Rightarrow> False)"

definition cacheKey :: "feed_env \<Rightarrow> real \<Rightarrow> real \<Rightarrow> string" where
  "cacheKey env x y = ''feed:'' @ toFixed3 env x @ '':'' @ toFixed3 env y"

text \<open>\<open>parseInt(process.env.CACHE_TTL_FEED || 1800)\<close>.\<close>

definition feed_ttl :: "feed_env \<Rightarrow> ttl" where
  "feed_ttl env =
     (if truthy_str (CACHE_TTL_FEED env) then parseInt env (the (CACHE_TTL_FEED env)) else Some 1800)"

text \<open>The cache read at the start of the handler: skipped when \<open>refresh\<close> is set.\<close>

definition feed_read :: "feed_env \<Rightarrow> cache_state \<Rightarrow> real \<Rightarrow> real \<Rightarrow> bool \<Rightarrow> jsvalue \<times> cache_state" where
  "feed_read env cs x y refresh =
     (if \<not> refresh then getCache (redis_get_ok env) (now_get env) cs (cacheKey env x y)
      else (Null, cs))"

text \<open>
  The handler. The query is what \<open>validateFeedQuery\<close> returned: an error, or the
  validated \<open>x\<close>, \<open>y\<close> and \<open>refresh\<close>. The state is the cache module state and the
  catalog. Everything after validation runs inside \<open>try\<close>; each raise (a cached
  string that does not parse, the provider, \<open>setCache\<close>) ends in the \<open>catch\<close> that
  answers 500.
\<close>

definition feed_handler ::
  "feed_env \<Rightarrow> cache_state \<times> source list \<Rightarrow> js_error + (real \<times> real \<times> bool)
     \<Rightarrow> response \<times> (cache_state \<times> source list)" where
  "feed_handler env st query =
     (case query of
        Inl error \<Rightarrow> (Status400, st)
      | Inr (x, y, refresh) \<Rightarrow>
          (let rd = feed_read env (fst st) x y refresh;
               cached = fst rd; cs1 = snd rd
           in if \<not> refresh \<and> truthy_value cached then
                (case cached of
                   Str s \<Rightarrow> if JSON_parses env s then (JsonCached s, (cs1, snd st))
                            else (Status500, (cs1, snd st))
                 | _ \<Rightarrow> (Status500, (cs1, snd st)))
              else
                (let pk = pickSources (loaded_sources env) (snd st) (Number (Fin x)) (Number (Fin y))
                            (Some default_options);
                     catalog = snd pk
                 in case fst pk of
                      Inl e \<Rightarrow> (Status500, (cs1, catalog))
                    | Inr sources \<Rightarrow>
                        if sources = [] then (JsonCards [], (cs1, catalog))
                        else
                          (case getArticlesBySources env (map out_id sources) of
                             Inl e \<Rightarrow> (Status500, (cs1, catalog))
                           | Inr articles \<Rightarrow>
                               (let cards = build_cards sources articles [] []
                                in if cards \<noteq> [] then
                                     (let w = setCache (redis_set_ok env) (now_set env) cs1
                                                (cacheKey env x y) (Str (JSON_stringify env cards))
                                                (feed_ttl env)
                                      in case fst w of
                                           Inl e \<Rightarrow> (Status500, (snd w, catalog))
                                         | Inr b \<Rightarrow> (JsonCards cards, (snd w, catalog)))
                                   else (JsonCards cards, (cs1, catalog)))))))"

text \<open>The request got past the cache (refresh, or no truthy cached value) and selected
  these sources; the provider is then called with their ids. (With numeric coordinates
  and the default options \<open>pickSources\<close> always returns; the list is taken as empty
  in the other case.)\<close>

definition selected_for_request :: "feed_env \<Rightarrow> cache_state \<times> source list \<Rightarrow> real \<Rightarrow> real \<Rightarrow> picked list" where
  "selected_for_request env st x y =
     (case fst (pickSources (loaded_sources env) (snd st) (Number (Fin x)) (Number (Fin y))
                  (Some default_options)) of
        Inr sources \<Rightarrow> sources
      | Inl e \<Rightarrow> [])"

definition past_cache :: "feed_env \<Rightarrow> cache_state \<times> source list \<Rightarrow> real \<Rightarrow> real \<Rightarrow> bool \<Rightarrow> bool" where
  "past_cache env st x y refresh =
     (refresh \<or> \<not> truthy_value (fst (feed_read env (fst st) x y refresh)))"

section \<open>Properties of the memory cache\<close>

subsection \<open>The ordered map\<close>

lemma length_Map_set_le: "length (Map_set m k v) \<le> Suc (length m)"
  by (induction m) auto

lemma length_Map_delete_le: "length (Map_delete m k) \<le> length m"
  by (simp add: Map_delete_def)

lemma length_Map_delete_hd: "length (Map_delete (p # ps) (fst p)) \<le> length ps"
  by (simp add: Map_delete_def)

lemma map_of_Map_set: "map_of (Map_set m k v) = (map_of m)(k \<mapsto> v)"
  by (induction m) (auto simp: fun_eq_iff)

lemma map_of_Map_delete: "map_of (Map_delete m k) = (map_of m)(k := None)"
  by (induction m) (auto simp: Map_delete_def fun_eq_iff)

lemma Map_set_new: "k \<notin> set (map fst m) \<Longrightarrow> Map_set m k v = m @ [(k, v)]"
  by (induction m) auto

lemma Map_delete_absent: "k \<notin> set (map fst (Map_delete m k))"
  by (auto simp: Map_delete_def)

lemma Map_delete_hd_distinct: "distinct (map fst (p # ps)) \<Longrightarrow> Map_delete (p # ps) (fst p) = ps"
  by (auto simp: Map_delete_def filter_id_conv image_iff)

lemma map_fst_Map_set: "map fst (Map_set m k v) = (if k \<in> set (map fst m) then map fst m else map fst m @ [k])"
  by (induction m) auto

subsection \<open>The size bound\<close>

lemma maxSize_get: "maxSize (snd (MemoryCache_get mc now k)) = maxSize mc"
  by (simp add: MemoryCache_get_def split: option.splits)

lemma bounded_get: "bounded mc \<Longrightarrow> bounded (snd (MemoryCache_get mc now k))"
proof -
  assume b: "bounded mc"
  have d: "length (Map_delete (cache mc) k) \<le> length (cache mc)" by (rule length_Map_delete_le)
  show ?thesis
  proof (cases "map_of (cache mc) k")
    case None then show ?thesis using b by (simp add: MemoryCache_get_def)
  next
    case (Some it)
    then have "(k, it) \<in> set (cache mc)" by (rule map_of_SomeD)
    then have "length (Map_delete (cache mc) k) < length (cache mc)"
      unfolding Map_delete_def
      by (rule length_filter_less[where x="(k, it)"]) simp_all
    moreover have "length (Map_set (Map_delete (cache mc) k) k it) \<le> Suc (length (Map_delete (cache mc) k))"
      by (rule length_Map_set_le)
    ultimately show ?thesis using b d Some
      by (auto simp: MemoryCache_get_def bounded_def)
  qed
qed

lemma bounded_set: "1 \<le> maxSize mc \<Longrightarrow> bounded mc \<Longrightarrow> bounded (MemoryCache_set mc now k v t)"
proof -
  assume m: "1 \<le> maxSize mc" and b: "bounded mc"
  let ?c1 = "(if int (length (cache mc)) \<ge> maxSize mc
                then (case cache mc of [] \<Rightarrow> [] | p # ps \<Rightarrow> Map_delete (cache mc) (fst p))
                else cache mc)"
  have "int (length ?c1) < maxSize mc"
  proof (cases "int (length (cache mc)) \<ge> maxSize mc")
    case True
    then obtain p ps where c: "cache mc = p # ps" using m by (cases "cache mc") auto
    have "length (Map_delete (p # ps) (fst p)) \<le> length ps" by (rule length_Map_delete_hd)
    then show ?thesis using True b c by (simp add: bounded_def)
  next
    case False then show ?thesis by simp
  qed
  moreover have "length (Map_set ?c1 k x) \<le> Suc (length ?c1)" for x by (rule length_Map_set_le)
  ultimately have "int (length (Map_set ?c1 k x)) \<le> maxSize mc" for x
    using le_trans[OF length_Map_set_le[of ?c1 k x], of "nat (maxSize mc)"] by linarith
  then show ?thesis
    unfolding bounded_def MemoryCache_set_def Let_def by simp
qed

lemma maxSize_apply_op: "maxSize (apply_op mc op) = maxSize mc"
  by (cases op) (simp_all add: maxSize_get MemoryCache_set_def Let_def MemoryCache_delete_def
       MemoryCache_clear_def MemoryCache_cleanup_def)

lemma bounded_apply_op: "1 \<le> maxSize mc \<Longrightarrow> bounded mc \<Longrightarrow> bounded (apply_op mc op)"
proof (cases op)
  case (OpGet k now) then show "bounded mc \<Longrightarrow> ?thesis" by (simp add: bounded_get)
next
  case (OpSet k v t now) then show "1 \<le> maxSize mc \<Longrightarrow> bounded mc \<Longrightarrow> ?thesis" by (simp add: bounded_set)
next
  case (OpDelete k)
  have "length (Map_delete (cache mc) k) \<le> length (cache mc)" by (rule length_Map_delete_le)
  then show "bounded mc \<Longrightarrow> ?thesis" using OpDelete by (simp add: bounded_def MemoryCache_delete_def)
next
  case OpClear then show "1 \<le> maxSize mc \<Longrightarrow> ?thesis" by (simp add: bounded_def MemoryCache_clear_def)
next
  case (OpCleanup now)
  have "length (filter (\<lambda>p. \<not> item_expired now (snd p)) (cache mc)) \<le> length (cache mc)" by simp
  then show "bounded mc \<Longrightarrow> ?thesis" using OpCleanup
    by (simp add: bounded_def MemoryCache_cleanup_def del: length_filter_le)
qed

lemma run_ops_invariant:
  "1 \<le> maxSize mc \<Longrightarrow> bounded mc \<Longrightarrow> bounded (run_ops mc ops) \<and> maxSize (run_ops mc ops) = maxSize mc"
  unfolding run_ops_def
proof (induction ops arbitrary: mc)
  case Nil then show ?case by simp
next
  case (Cons op ops)
  have "1 \<le> maxSize (apply_op mc op)" using Cons.prems by (simp add: maxSize_apply_op)
  moreover have "bounded (apply_op mc op)" using Cons.prems by (simp add: bounded_apply_op)
  ultimately show ?case using Cons.IH[of "apply_op mc op"] by (simp add: maxSize_apply_op)
qed

text \<open>
  C10. The memory cache is bounded: starting from an empty cache with \<open>maxSize \<ge> 1\<close>,
  after any sequence of get, set, delete, clear and cleanup operations (with any keys,
  values, time-to-live arguments and clock readings) the number of stored entries is at
  most \<open>maxSize\<close>.
\<close>

theorem memory_cache_bounded:
  "1 \<le> n \<Longrightarrow> int (MemoryCache_size (run_ops (MemoryCache_new n) ops)) \<le> n"
proof -
  assume n: "1 \<le> n"
  have "bounded (MemoryCache_new n)" using n by (simp add: bounded_def MemoryCache_new_def)
  moreover have "maxSize (MemoryCache_new n) = n" by (simp add: MemoryCache_new_def)
  ultimately have "bounded (run_ops (MemoryCache_new n) ops) \<and> maxSize (run_ops (MemoryCache_new n) ops) = n"
    using run_ops_invariant[of "MemoryCache_new n" ops] n by simp
  then show ?thesis by (simp add: bounded_def MemoryCache_size_def)
qed

theorem memory_cache_bounded_witness:
  "(1::int) \<le> 2 \<and>
   int (MemoryCache_size (run_ops (MemoryCache_new 2)
     [OpSet ''a'' (Str ''1'') (Some 60) 0, OpSet ''b'' (Str ''2'') (Some 1) 0,
      OpSet ''c'' (Str ''3'') None 1, OpGet ''b'' 5, OpCleanup 2000, OpSet ''d'' (Str ''4'') (Some 5) 2001,
      OpDelete ''zz'', OpSet ''e'' Null (Some 5) 2002])) \<le> 2"
  using memory_cache_bounded [of 2 "[OpSet ''a'' (Str ''1'') (Some 60) 0, OpSet ''b'' (Str ''2'') (Some 1) 0,
      OpSet ''c'' (Str ''3'') None 1, OpGet ''b'' 5, OpCleanup 2000, OpSet ''d'' (Str ''4'') (Some 5) 2001,
      OpDelete ''zz'', OpSet ''e'' Null (Some 5) 2002]"]
  by simp

subsection \<open>Recency order and eviction\<close>

lemma get_hit:
  assumes "map_of (cache mc) k = Some it" "\<not> (truthy_num (expires it) \<and> the (expires it) < now)"
  shows "MemoryCache_get mc now k = (item_value it, mc\<lparr>cache := Map_delete (cache mc) k @ [(k, it)]\<rparr>)"
  using assms Map_set_new[OF Map_delete_absent, of "cache mc" k it]
  by (auto simp add: MemoryCache_get_def)

lemma set_at_capacity:
  assumes "cache mc = p # ps" "distinct (map fst (cache mc))" "maxSize mc \<le> int (length (cache mc))"
  shows "cache (MemoryCache_set mc now k v t) =
         Map_set ps k \<lparr>item_value = v, expires = (if truthy_num t then Some (now + the t * 1000) else None)\<rparr>"
proof -
  have "Map_delete (p # ps) (fst p) = ps"
    using assms(1,2) Map_delete_hd_distinct[of p ps] by simp
  then show ?thesis using assms by (simp add: MemoryCache_set_def Let_def)
qed

lemma set_below_capacity:
  assumes "int (length (cache mc)) < maxSize mc"
  shows "cache (MemoryCache_set mc now k v t) =
         Map_set (cache mc) k \<lparr>item_value = v, expires = (if truthy_num t then Some (now + the t * 1000) else None)\<rparr>"
  using assms by (simp add: MemoryCache_set_def Let_def)

lemma maxSize_set: "maxSize (MemoryCache_set mc now k v t) = maxSize mc"
  by (simp add: MemoryCache_set_def Let_def)

lemma keys_after_set_new:
  assumes "1 \<le> n" "maxSize mc = int n" "length (cache mc) \<le> n"
    "distinct (map fst (cache mc))" "k \<notin> set (map fst (cache mc))"
  shows "map fst (cache (MemoryCache_set mc now k v t)) =
         drop (Suc (length (cache mc)) - n) (map fst (cache mc) @ [k])"
proof (cases "length (cache mc) = n")
  case True
  then obtain p ps where c: "cache mc = p # ps" using assms(1) by (cases "cache mc") auto
  have "k \<notin> set (map fst ps)" using assms(5) c by simp
  then have "map fst (Map_set ps k x) = map fst ps @ [k]" for x
    by (simp add: map_fst_Map_set)
  then show ?thesis using set_at_capacity[OF c assms(4)] assms(2) True c by simp
next
  case False
  then have lt: "int (length (cache mc)) < maxSize mc" using assms(2,3) by simp
  have "map fst (Map_set (cache mc) k x) = map fst (cache mc) @ [k]" for x
    using assms(5) by (simp add: map_fst_Map_set)
  then show ?thesis using set_below_capacity[OF lt] assms(3) False by simp
qed

lemma keys_after_sets:
  assumes "1 \<le> n" "maxSize mc = int n" "length (cache mc) \<le> n"
    "distinct (map fst (cache mc) @ map fst xs)"
  shows "map fst (cache (run_ops mc (set_ops xs))) =
         drop (length (cache mc) + length xs - n) (map fst (cache mc) @ map fst xs)"
  using assms
proof (induction xs arbitrary: mc)
  case Nil
  then show ?case by (simp add: run_ops_def set_ops_def)
next
  case (Cons x xs)
  obtain k v t now where x: "x = (k, v, t, now)" by (cases x) auto
  let ?mc = "MemoryCache_set mc now k v t"
  have d: "distinct (map fst (cache mc))" and kn: "k \<notin> set (map fst (cache mc))"
    using Cons.prems(4) x by auto
  have keys: "map fst (cache ?mc) = drop (Suc (length (cache mc)) - n) (map fst (cache mc) @ [k])"
    by (rule keys_after_set_new[OF Cons.prems(1,2,3) d kn])
  have len: "length (cache ?mc) = min (Suc (length (cache mc))) n"
    using arg_cong[OF keys, of length] Cons.prems(3) by simp
  have dist: "distinct (map fst (cache ?mc) @ map fst xs)"
  proof -
    have "distinct ((map fst (cache mc) @ [k]) @ map fst xs)" using Cons.prems(4) x by simp
    then have "distinct (drop (Suc (length (cache mc)) - n) ((map fst (cache mc) @ [k]) @ map fst xs))"
      by (rule distinct_drop)
    moreover have "Suc (length (cache mc)) - n \<le> length (map fst (cache mc) @ [k])" by simp
    ultimately show ?thesis unfolding keys by (simp del: append_assoc)
  qed
  have step: "run_ops mc (set_ops (x # xs)) = run_ops ?mc (set_ops xs)"
    by (simp add: run_ops_def set_ops_def x)
  have ih: "map fst (cache (run_ops ?mc (set_ops xs))) =
            drop (length (cache ?mc) + length xs - n) (map fst (cache ?mc) @ map fst xs)"
    using Cons.IH[of ?mc] Cons.prems(1,2) len dist by (simp add: maxSize_set)
  show ?case
  proof (cases "length (cache mc) = n")
    case True
    then show ?thesis unfolding step ih keys len using x Cons.prems(1)
      by (simp add: drop_Suc tl_drop)
  next
    case False
    then have "Suc (length (cache mc)) \<le> n" using Cons.prems(3) by simp
    then show ?thesis unfolding step ih keys len using x by simp
  qed
qed

lemma first_evicted_last_kept:
  assumes "1 \<le> n" "distinct (map fst xs)" "length xs = n + 1"
  shows "map fst (cache (run_ops (MemoryCache_new (int n)) (set_ops xs))) = tl (map fst xs)"
    and "fst (hd xs) \<notin> set (map fst (cache (run_ops (MemoryCache_new (int n)) (set_ops xs))))"
    and "fst (last xs) \<in> set (map fst (cache (run_ops (MemoryCache_new (int n)) (set_ops xs))))"
proof -
  let ?mc = "MemoryCache_new (int n)"
  have "map fst (cache (run_ops ?mc (set_ops xs))) =
        drop (length (cache ?mc) + length xs - n) (map fst (cache ?mc) @ map fst xs)"
    by (rule keys_after_sets) (use assms in \<open>simp_all add: MemoryCache_new_def\<close>)
  then show k: "map fst (cache (run_ops ?mc (set_ops xs))) = tl (map fst xs)"
    using assms(3) by (simp add: MemoryCache_new_def drop_Suc)
  obtain y ys where xs: "xs = y # ys" using assms(3) by (cases xs) auto
  have ys: "ys \<noteq> []" using assms(1,3) xs by auto
  show "fst (hd xs) \<notin> set (map fst (cache (run_ops ?mc (set_ops xs))))"
    unfolding k using assms(2) xs by auto
  show "fst (last xs) \<in> set (map fst (cache (run_ops ?mc (set_ops xs))))"
    unfolding k using xs ys by simp
qed

lemma distinct_keys_Map_set: "distinct (map fst m) \<Longrightarrow> distinct (map fst (Map_set m k v))"
  by (simp add: map_fst_Map_set)

lemma distinct_keys_Map_delete: "distinct (map fst m) \<Longrightarrow> distinct (map fst (Map_delete m k))"
  by (simp add: Map_delete_def distinct_map_filter)

lemma distinct_keys_filter: "distinct (map fst m) \<Longrightarrow> distinct (map fst (filter P m))"
  by (simp add: distinct_map_filter)

lemma distinct_keys_apply_op:
  assumes "distinct (map fst (cache mc))"
  shows "distinct (map fst (cache (apply_op mc op)))"
proof (cases op)
  case (OpGet k now)
  then show ?thesis using assms
    by (auto simp: MemoryCache_get_def distinct_keys_Map_set distinct_keys_Map_delete split: option.splits)
next
  case (OpSet k v t now)
  have "distinct (map fst (case cache mc of [] \<Rightarrow> [] | p # ps \<Rightarrow> Map_delete (cache mc) (fst p)))"
    using assms distinct_keys_Map_delete[OF assms] by (cases "cache mc") simp_all
  then show ?thesis using OpSet assms
    by (simp add: MemoryCache_set_def Let_def distinct_keys_Map_set)
next
  case (OpDelete k)
  then show ?thesis using assms by (simp add: MemoryCache_delete_def distinct_keys_Map_delete)
next
  case OpClear
  then show ?thesis by (simp add: MemoryCache_clear_def)
next
  case (OpCleanup now)
  then show ?thesis using assms by (simp add: MemoryCache_cleanup_def distinct_keys_filter)
qed

text \<open>The keys of every reachable memory cache are pairwise distinct, as the keys of a
  JavaScript Map are.\<close>

lemma distinct_keys_run_ops:
  "distinct (map fst (cache mc)) \<Longrightarrow> distinct (map fst (cache (run_ops mc ops)))"
  unfolding run_ops_def
  by (induction ops arbitrary: mc) (simp_all add: distinct_keys_apply_op)

text \<open>
  C5. The memory cache is to evict, on a set at capacity, the entry that was used least
  recently. The code evicts the first key of the map's iteration order, and a set on a
  key that is already present overwrites the entry where it stands, without moving it to
  the end as a get hit does. So with \<open>maxSize = 3\<close>, after \<open>set a, set b, set a,
  set c\<close> the map order is \<open>a, b, c\<close> while the least recently used key is
  \<open>b\<close>; the next \<open>set d\<close> evicts \<open>a\<close>, written after \<open>b\<close>, and keeps
  \<open>b\<close>.
\<close>

theorem memory_cache_set_evicts_recent:
  "map fst (cache (run_ops (MemoryCache_new 3)
      (set_ops [(''a'', Str ''1'', None, 0), (''b'', Str ''2'', None, 1),
                (''a'', Str ''3'', None, 2), (''c'', Str ''4'', None, 3)])))
     = [''a'', ''b'', ''c'']
   \<and> lru_order [''a'', ''b'', ''a'', ''c''] = [''b'', ''a'', ''c'']
   \<and> map fst (cache (run_ops (MemoryCache_new 3)
      (set_ops [(''a'', Str ''1'', None, 0), (''b'', Str ''2'', None, 1),
                (''a'', Str ''3'', None, 2), (''c'', Str ''4'', None, 3),
                (''d'', Str ''5'', None, 4)])))
     = [''b'', ''c'', ''d'']"
  by (simp add: run_ops_def set_ops_def MemoryCache_new_def MemoryCache_set_def
      Map_has_def Map_delete_def truthy_num_def lru_order_def lru_touch_def Let_def)

section \<open>Properties of the tiered cache\<close>

subsection \<open>setCache\<close>

lemma map_of_cache_set:
  "map_of (cache (MemoryCache_set mc now k v t)) k =
     Some \<lparr>item_value = v, expires = (if truthy_num t then Some (now + the t * 1000) else None)\<rparr>"
  by (simp add: MemoryCache_set_def Let_def map_of_Map_set)

lemma memory_set_Str:
  "memory_set now st k (Str v) t =
     (Inr True, st\<lparr>memoryCache := MemoryCache_set (memoryCache st) now k (Str v) t\<rparr>)"
  by (simp add: memory_set_def value_length_def Let_def)

lemma setCache_Str_cases:
  assumes "k \<noteq> []"
  shows "setCache ok now st k (Str v) t =
     (Inr True,
      (if isRedisConnected st \<and> client st
       then (case redis_set ok (redis st) now k (Str v) t of
               None \<Rightarrow> st\<lparr>isRedisConnected := False\<rparr>
             | Some db \<Rightarrow> st\<lparr>redis := db\<rparr>)
       else st)\<lparr>memoryCache := MemoryCache_set (memoryCache st) now k (Str v) t\<rparr>)"
  using assms
  by (simp add: setCache_def memory_set_Str value_length_def split: option.splits)

lemma setCache_Str_memory:
  assumes "k \<noteq> []"
  shows "map_of (cache (memoryCache (snd (setCache ok now st k (Str v) t)))) k =
           Some \<lparr>item_value = Str v,
                 expires = (if truthy_num t then Some (now + the t * 1000) else None)\<rparr>"
  unfolding setCache_Str_cases[OF assms]
  by (simp add: map_of_cache_set split: option.splits)

text \<open>On a string value the call returns \<open>true\<close> and the value is stored in the
  memory cache, whatever the time-to-live and whether or not the Redis write raises; when
  the Redis write raises, the only other change is that \<open>isRedisConnected\<close> becomes
  \<open>false\<close>.\<close>

lemma setCache_Str_succeeds:
  assumes "k \<noteq> []"
  shows "fst (setCache ok now st k (Str v) t) = Inr True
       \<and> map_of (cache (memoryCache (snd (setCache ok now st k (Str v) t)))) k =
           Some \<lparr>item_value = Str v,
                 expires = (if truthy_num t then Some (now + the t * 1000) else None)\<rparr>
       \<and> (isRedisConnected st \<and> client st \<and> redis_set ok (redis st) now k (Str v) t = None \<longrightarrow>
            isRedisConnected (snd (setCache ok now st k (Str v) t)) = False
          \<and> redis (snd (setCache ok now st k (Str v) t)) = redis st
          \<and> client (snd (setCache ok now st k (Str v) t)) = client st)"
  unfolding setCache_Str_cases[OF assms]
  by (simp add: map_of_cache_set split: option.splits)

text \<open>
  C7. For every truthy key and every defined value \<open>setCache\<close> is to return
  \<open>true\<close> with the value stored in the memory cache. \<open>null\<close> is a defined value
  (the guard refuses \<open>undefined\<close> only), and with it the call does not return:
  \<open>setCache('k', null, 60)\<close>, with no Redis client, stores the entry in the memory
  cache and then raises TypeError while building the debug log record, whose
  \<open>value.length\<close> is evaluated outside any \<open>try\<close>.
\<close>

theorem setCache_null_raises:
  "fst (setCache True 5 \<lparr>client = False, isRedisConnected = False, redis = [],
                          memoryCache = MemoryCache_new 1000\<rparr> ''k'' Null (Some 60))
     = Inl TypeError
   \<and> cache (memoryCache (snd (setCache True 5 \<lparr>client = False, isRedisConnected = False,
                          redis = [], memoryCache = MemoryCache_new 1000\<rparr> ''k'' Null (Some 60))))
     = [(''k'', \<lparr>item_value = Null, expires = Some 60005\<rparr>)]"
  by (simp add: setCache_def memory_set_def value_length_def MemoryCache_set_def
      MemoryCache_new_def truthy_num_def Let_def)

subsection \<open>getCache\<close>

text \<open>
  C8. When Redis is connected, the read does not raise and Redis holds the key,
  \<open>getCache\<close> returns that value and the whole module state, the memory cache
  included, is unchanged: nothing is inserted and no entry is moved.
\<close>

theorem getCache_redis_hit_frame:
  assumes "isRedisConnected st" "client st" "redis_get (redis st) now key = Some v"
  shows "getCache True now st key = (Str v, st)"
  using assms by (simp add: getCache_def)

theorem getCache_redis_hit_frame_witness:
  "getCache True 10
     \<lparr>client = True, isRedisConnected = True, redis = [(''k'', (''v'', Some 5000))],
      memoryCache = \<lparr>cache = [(''k'', \<lparr>item_value = Str ''old'', expires = None\<rparr>),
                              (''j'', \<lparr>item_value = Str ''w'', expires = None\<rparr>)], maxSize = 2\<rparr>\<rparr> ''k''
   = (Str ''v'',
     \<lparr>client = True, isRedisConnected = True, redis = [(''k'', (''v'', Some 5000))],
      memoryCache = \<lparr>cache = [(''k'', \<lparr>item_value = Str ''old'', expires = None\<rparr>),
                              (''j'', \<lparr>item_value = Str ''w'', expires = None\<rparr>)], maxSize = 2\<rparr>\<rparr>)"
  using getCache_redis_hit_frame [of
     "\<lparr>client = True, isRedisConnected = True, redis = [(''k'', (''v'', Some 5000))],
      memoryCache = \<lparr>cache = [(''k'', \<lparr>item_value = Str ''old'', expires = None\<rparr>),
                              (''j'', \<lparr>item_value = Str ''w'', expires = None\<rparr>)], maxSize = 2\<rparr>\<rparr>"
     10 "''k''" "''v''"]
  by (simp add: redis_get_def redis_live_def)

subsection \<open>Round trip\<close>

lemma memory_get_fresh:
  assumes "map_of (cache (memoryCache st)) k = Some \<lparr>item_value = v, expires = Some e\<rparr>" "now2 \<le> e"
  shows "fst (memory_get now2 st k) = v"
  using assms by (simp add: memory_get_def MemoryCache_get_def Let_def)

lemma memory_get_stale:
  assumes "map_of (cache (memoryCache st)) k = Some \<lparr>item_value = v, expires = Some e\<rparr>" "e < now2" "e \<noteq> 0"
  shows "fst (memory_get now2 st k) = Null"
  using assms by (simp add: memory_get_def MemoryCache_get_def Let_def truthy_num_def)

lemma redis_get_after_set:
  "redis_set ok db now k (Str v) (Some t) = Some db' \<Longrightarrow>
   redis_get db' now2 k = (if now2 < now + t * 1000 then Some v else None)"
  by (auto simp: redis_set_def redis_get_def redis_live_def map_of_Map_set split: if_splits)

text \<open>
  C6 (as amended). For every non-empty key, every string value and every positive
  time-to-live \<open>t\<close> (seconds), from any module state and whatever the Redis calls do:
  \<open>setCache\<close> returns \<open>true\<close>; a \<open>getCache\<close> of the key that follows with no
  operation or connection event in between and at most \<open>t\<close> seconds later returns the
  value; one that follows more than \<open>t\<close> seconds later returns \<open>null\<close>.
\<close>

theorem setCache_getCache_roundtrip:
  assumes "k \<noteq> []" "0 < t" "0 \<le> now"
  shows "fst (setCache ok1 now st k (Str v) (Some t)) = Inr True
       \<and> (now \<le> now2 \<and> now2 \<le> now + t * 1000 \<longrightarrow>
            fst (getCache ok2 now2 (snd (setCache ok1 now st k (Str v) (Some t))) k) = Str v)
       \<and> (now + t * 1000 < now2 \<longrightarrow>
            fst (getCache ok2 now2 (snd (setCache ok1 now st k (Str v) (Some t))) k) = Null)"
proof -
  let ?st = "snd (setCache ok1 now st k (Str v) (Some t))"
  let ?e = "now + t * 1000"
  have tr: "truthy_num (Some t)" using assms(2) by (simp add: truthy_num_def)
  have mem: "map_of (cache (memoryCache ?st)) k = Some \<lparr>item_value = Str v, expires = Some ?e\<rparr>"
    using setCache_Str_memory[OF assms(1), of ok1 now st v "Some t"] tr by simp
  have "0 < t * 1000" using assms(2) by simp
  then have e0: "?e \<noteq> 0" using assms(3) by linarith
  have ok: "fst (setCache ok1 now st k (Str v) (Some t)) = Inr True"
    unfolding setCache_Str_cases[OF assms(1)] by simp
  have memflag: "map_of (cache (memoryCache (?st\<lparr>isRedisConnected := False\<rparr>))) k =
      Some \<lparr>item_value = Str v, expires = Some ?e\<rparr>" using mem by simp
  have red: "isRedisConnected ?st \<and> client ?st \<Longrightarrow>
      redis_get (redis ?st) now2 k = (if now2 < ?e then Some v else None)"
    unfolding setCache_Str_cases[OF assms(1)]
    by (auto simp: redis_get_after_set split: option.splits if_splits)
  have fresh: "fst (getCache ok2 now2 ?st k) = Str v" if "now2 \<le> ?e"
  proof (cases "isRedisConnected ?st \<and> client ?st")
    case True
    show ?thesis
      using True red[OF True] memory_get_fresh[OF mem that] memory_get_fresh[OF memflag that]
      by (simp add: getCache_def)
  next
    case False
    then show ?thesis using memory_get_fresh[OF mem that] by (auto simp add: getCache_def)
  qed
  have stale: "fst (getCache ok2 now2 ?st k) = Null" if "?e < now2"
  proof (cases "isRedisConnected ?st \<and> client ?st")
    case True
    show ?thesis
      using True red[OF True] that memory_get_stale[OF mem that e0] memory_get_stale[OF memflag that e0]
      by (simp add: getCache_def)
  next
    case False
    then show ?thesis using memory_get_stale[OF mem that e0] by (auto simp add: getCache_def)
  qed
  show ?thesis using ok fresh stale by blast
qed

theorem setCache_getCache_roundtrip_witness:
  "''k'' \<noteq> [] \<and> (0::int) < 60 \<and> (0::int) \<le> 7
   \<and> fst (setCache True 7 (\<lparr>client = True, isRedisConnected = True, redis = [], memoryCache = MemoryCache_new 1000\<rparr>) ''k'' (Str ''v'') (Some 60)) = Inr True
   \<and> fst (getCache True 8 (snd (setCache True 7 (\<lparr>client = True, isRedisConnected = True, redis = [], memoryCache = MemoryCache_new 1000\<rparr>) ''k'' (Str ''v'') (Some 60))) ''k'') = Str ''v''
   \<and> fst (getCache True 60008 (snd (setCache True 7 (\<lparr>client = True, isRedisConnected = True, redis = [], memoryCache = MemoryCache_new 1000\<rparr>) ''k'' (Str ''v'') (Some 60))) ''k'') = Null"
  using setCache_getCache_roundtrip [of "''k''" 60 7 True "\<lparr>client = True, isRedisConnected = True, redis = [], memoryCache = MemoryCache_new 1000\<rparr>" "''v''" 8 True]
        setCache_getCache_roundtrip [of "''k''" 60 7 True "\<lparr>client = True, isRedisConnected = True, redis = [], memoryCache = MemoryCache_new 1000\<rparr>" "''v''" 60008 True]
  by simp

text \<open>The claim as stated covers every key; the empty string is one, \<open>setCache\<close>
  rejects it (\<open>!key\<close>) and stores nothing, so the read that follows misses.\<close>

theorem setCache_empty_key_counterexample:
  "fst (setCache True 7 (\<lparr>client = False, isRedisConnected = False, redis = [], memoryCache = MemoryCache_new 1000\<rparr>) [] (Str ''v'') (Some 60)) = Inr False
   \<and> fst (getCache True 7 (snd (setCache True 7 (\<lparr>client = False, isRedisConnected = False, redis = [], memoryCache = MemoryCache_new 1000\<rparr>) [] (Str ''v'') (Some 60))) []) = Null"
  by (simp add: setCache_def getCache_def memory_get_def MemoryCache_get_def MemoryCache_new_def)

subsection \<open>clearCache\<close>

lemma clearCache_no_pattern:
  assumes "\<not> truthy_str pattern"
  shows "clearCache km re keys_ok del_ok st pattern =
         (Inr (length (cache (memoryCache st))),
          st\<lparr>memoryCache := (memoryCache st)\<lparr>cache := []\<rparr>\<rparr>)"
  using assms
  by (simp add: clearCache_def clear_redis_def Let_def MemoryCache_size_def MemoryCache_clear_def)

lemma clear_redis_frame: "memoryCache (snd (clear_redis km keys_ok del_ok st pattern)) = memoryCache st"
  by (simp add: clear_redis_def Let_def)

lemma clear_redis_done:
  assumes "isRedisConnected st" "client st" "keys_ok" "del_ok" "pattern = Some p" "p \<noteq> []"
  shows "redis (snd (clear_redis km keys_ok del_ok st pattern)) = filter (\<lambda>e. \<not> km p (fst e)) (redis st)"
proof -
  have eq: "filter (\<lambda>e. fst e \<notin> set (filter (km p) (map fst (redis st)))) (redis st) =
        filter (\<lambda>e. \<not> km p (fst e)) (redis st)"
    by (rule filter_cong) auto
  have "filter (km p) (map fst (redis st)) = [] \<Longrightarrow> filter (\<lambda>e. \<not> km p (fst e)) (redis st) = redis st"
    by (auto simp: filter_empty_conv filter_id_conv)
  then show ?thesis using assms eq
    by (auto simp: clear_redis_def Let_def truthy_str_def)
qed

lemma clearCache_pattern:
  assumes "pattern = Some p" "p \<noteq> []" "re (replace_star p) = Some test"
  shows "cache (memoryCache (snd (clearCache km re keys_ok del_ok st pattern))) =
           filter (\<lambda>e. \<not> test (fst e)) (cache (memoryCache st))"
    and "isRedisConnected st \<and> client st \<and> keys_ok \<and> del_ok \<longrightarrow>
         redis (snd (clearCache km re keys_ok del_ok st pattern)) =
           filter (\<lambda>e. \<not> km p (fst e)) (redis st)"
  using assms clear_redis_done[of st keys_ok del_ok pattern p km]
  by (auto simp: clearCache_def Let_def truthy_str_def clear_redis_frame)

text \<open>
  C3 (as amended). Called without a pattern (or with the empty string), \<open>clearCache\<close>
  removes every key from the memory cache and leaves Redis untouched. Called with a
  non-empty pattern from which the regular expression can be built, it deletes from the
  memory cache exactly the keys on which that regular expression (the pattern with each
  \<open>*\<close> replaced by \<open>.*\<close>) tests true, and, when Redis is connected and both of its
  calls succeed, deletes from Redis exactly the keys that \<open>KEYS pattern\<close> lists.
\<close>

theorem clearCache_effect:
  "(\<not> truthy_str pat0 \<longrightarrow>
      clearCache km re keys_ok0 del_ok0 st0 pat0 =
        (Inr (length (cache (memoryCache st0))),
         st0\<lparr>memoryCache := (memoryCache st0)\<lparr>cache := []\<rparr>\<rparr>))
   \<and> (pattern = Some p \<and> p \<noteq> [] \<and> re (replace_star p) = Some test \<longrightarrow>
        cache (memoryCache (snd (clearCache km re keys_ok del_ok st pattern))) =
          filter (\<lambda>e. \<not> test (fst e)) (cache (memoryCache st))
      \<and> (isRedisConnected st \<and> client st \<and> keys_ok \<and> del_ok \<longrightarrow>
           redis (snd (clearCache km re keys_ok del_ok st pattern)) =
             filter (\<lambda>e. \<not> km p (fst e)) (redis st)))"
  using clearCache_no_pattern[of pat0 km re keys_ok0 del_ok0 st0]
        clearCache_pattern(1)[of pattern p re test km keys_ok del_ok st]
        clearCache_pattern(2)[of pattern p re test st keys_ok del_ok km]
  by blast

theorem clearCache_effect_witness:
  "clearCache star_match RegExp_fragment True True (\<lparr>client = True, isRedisConnected = True,
      redis = [(''feed:0.100:0.200'', (''[]'', None)), (''article:a'', (''{}'', None))],
      memoryCache = \<lparr>cache = [(''feed:0.100:0.200'', \<lparr>item_value = Str ''[]'', expires = None\<rparr>),
                              (''article:a'', \<lparr>item_value = Str ''{}'', expires = None\<rparr>)],
                     maxSize = 1000\<rparr>\<rparr>) None =
      (Inr 2, (\<lparr>client = True, isRedisConnected = True,
      redis = [(''feed:0.100:0.200'', (''[]'', None)), (''article:a'', (''{}'', None))],
      memoryCache = \<lparr>cache = [(''feed:0.100:0.200'', \<lparr>item_value = Str ''[]'', expires = None\<rparr>),
                              (''article:a'', \<lparr>item_value = Str ''{}'', expires = None\<rparr>)],
                     maxSize = 1000\<rparr>\<rparr>)\<lparr>memoryCache := (memoryCache (\<lparr>client = True, isRedisConnected = True,
      redis = [(''feed:0.100:0.200'', (''[]'', None)), (''article:a'', (''{}'', None))],
      memoryCache = \<lparr>cache = [(''feed:0.100:0.200'', \<lparr>item_value = Str ''[]'', expires = None\<rparr>),
                              (''article:a'', \<lparr>item_value = Str ''{}'', expires = None\<rparr>)],
                     maxSize = 1000\<rparr>\<rparr>))\<lparr>cache := []\<rparr>\<rparr>)
   \<and> map fst (cache (memoryCache (snd (clearCache star_match RegExp_fragment True True (\<lparr>client = True, isRedisConnected = True,
      redis = [(''feed:0.100:0.200'', (''[]'', None)), (''article:a'', (''{}'', None))],
      memoryCache = \<lparr>cache = [(''feed:0.100:0.200'', \<lparr>item_value = Str ''[]'', expires = None\<rparr>),
                              (''article:a'', \<lparr>item_value = Str ''{}'', expires = None\<rparr>)],
                     maxSize = 1000\<rparr>\<rparr>) (Some ''feed:*'')))))
       = [''article:a'']
   \<and> map fst (redis (snd (clearCache star_match RegExp_fragment True True (\<lparr>client = True, isRedisConnected = True,
      redis = [(''feed:0.100:0.200'', (''[]'', None)), (''article:a'', (''{}'', None))],
      memoryCache = \<lparr>cache = [(''feed:0.100:0.200'', \<lparr>item_value = Str ''[]'', expires = None\<rparr>),
                              (''article:a'', \<lparr>item_value = Str ''{}'', expires = None\<rparr>)],
                     maxSize = 1000\<rparr>\<rparr>) (Some ''feed:*''))))
       = [''article:a'']"
  using clearCache_effect [of None star_match RegExp_fragment True True "\<lparr>client = True, isRedisConnected = True,
      redis = [(''feed:0.100:0.200'', (''[]'', None)), (''article:a'', (''{}'', None))],
      memoryCache = \<lparr>cache = [(''feed:0.100:0.200'', \<lparr>item_value = Str ''[]'', expires = None\<rparr>),
                              (''article:a'', \<lparr>item_value = Str ''{}'', expires = None\<rparr>)],
                     maxSize = 1000\<rparr>\<rparr>"
          "Some ''feed:*''" "''feed:*''" "re_search (re_tokens ''feed:.*'')" True True "\<lparr>client = True, isRedisConnected = True,
      redis = [(''feed:0.100:0.200'', (''[]'', None)), (''article:a'', (''{}'', None))],
      memoryCache = \<lparr>cache = [(''feed:0.100:0.200'', \<lparr>item_value = Str ''[]'', expires = None\<rparr>),
                              (''article:a'', \<lparr>item_value = Str ''{}'', expires = None\<rparr>)],
                     maxSize = 1000\<rparr>\<rparr>"]
  by (simp add: truthy_str_def replace_star_def RegExp_fragment_def line_break_def
      regex_syntax_def)

text \<open>The claim as stated has the call without a pattern empty both tiers; the Redis
  half of \<open>clearCache\<close> runs only when a pattern is given, so the Redis keys stay.\<close>

theorem clearCache_no_pattern_counterexample:
  "map fst (redis (snd (clearCache star_match RegExp_fragment True True (\<lparr>client = True, isRedisConnected = True,
      redis = [(''feed:0.100:0.200'', (''[]'', None)), (''article:a'', (''{}'', None))],
      memoryCache = \<lparr>cache = [(''feed:0.100:0.200'', \<lparr>item_value = Str ''[]'', expires = None\<rparr>),
                              (''article:a'', \<lparr>item_value = Str ''{}'', expires = None\<rparr>)],
                     maxSize = 1000\<rparr>\<rparr>) None)))
     = [''feed:0.100:0.200'', ''article:a'']
   \<and> cache (memoryCache (snd (clearCache star_match RegExp_fragment True True (\<lparr>client = True, isRedisConnected = True,
      redis = [(''feed:0.100:0.200'', (''[]'', None)), (''article:a'', (''{}'', None))],
      memoryCache = \<lparr>cache = [(''feed:0.100:0.200'', \<lparr>item_value = Str ''[]'', expires = None\<rparr>),
                              (''article:a'', \<lparr>item_value = Str ''{}'', expires = None\<rparr>)],
                     maxSize = 1000\<rparr>\<rparr>) None))) = []"
  by (simp add: clearCache_def clear_redis_def truthy_str_def MemoryCache_clear_def)

section \<open>Properties of the source selection\<close>

subsection \<open>Record helpers\<close>

lemma src_id_with_distance [simp]: "src_id (with_distance s d) = src_id s"
  by (simp add: with_distance_def)

lemma distance_with_distance [simp]: "distance (with_distance s d) = d"
  by (simp add: with_distance_def)

lemma src_id_with_side [simp]: "src_id (with_side sd fb c) = src_id c"
  by (simp add: with_side_def)

lemma isFallback_with_side [simp]: "isFallback (with_side sd fb c) = fb"
  by (simp add: with_side_def)

lemma out_id_final_source [simp]: "out_id (final_source s) = src_id s"
  by (simp add: final_source_def)

lemma out_isFallback_final_source [simp]: "out_isFallback (final_source s) = isFallback s"
  by (simp add: final_source_def)

lemma distinct_map_sort_key: "distinct (map f (sort_key k xs)) = distinct (map f xs)"
  by (simp add: distinct_map)

lemma distinct_map_take: "distinct (map f xs) \<Longrightarrow> distinct (map f (take n xs))"
  by (simp add: take_map[symmetric])

lemma distinct_map_filter': "distinct (map f xs) \<Longrightarrow> distinct (map f (filter P xs))"
  by (rule distinct_map_filter)

subsection \<open>findClosestSources on finite coordinates\<close>

lemma calculateDistance_Fin:
  "calculateDistance (Fin a, Fin b) s =
     Fin (sqrt ((a - src_x s) * (a - src_x s) + (b - src_y s) * (b - src_y s)))"
proof -
  have "\<not> (a - src_x s) * (a - src_x s) + (b - src_y s) * (b - src_y s) < 0"
    by (simp add: not_less)
  then show ?thesis by (simp add: calculateDistance_def Let_def)
qed

lemma findClosestSources_try_Fin:
  "findClosestSources_try srcs (Fin a) (Fin b) n ex cf =
     take n (sort_key distance_key
       (map (\<lambda>s. with_distance s (calculateDistance (Fin a, Fin b) s))
          (filter (in_radius a b) (filter (eligible ex cf) srcs))))"
  by (simp add: findClosestSources_try_def filter_map o_def calculateDistance_Fin in_radius_def
      MAX_SEARCH_RADIUS_def)

lemma length_findClosestSources_try: "length (findClosestSources_try srcs x y n ex cf) \<le> n"
  by (simp add: findClosestSources_try_def)

lemma ids_findClosestSources_try_Fin:
  "set (map src_id (findClosestSources_try srcs (Fin a) (Fin b) n ex cf))
     \<subseteq> src_id ` {s \<in> set srcs. eligible ex cf s}"
proof -
  have "set (take n xs) \<subseteq> set xs" for xs :: "candidate list" by (rule set_take_subset)
  then show ?thesis unfolding findClosestSources_try_Fin
    by (auto dest!: in_set_takeD)
qed

lemma eligible_None: "eligible ex None s = (src_id s \<notin> set ex \<and> src_active s)"
  by (simp add: eligible_def truthy_str_def)

lemma filter_eligible_None:
  "filter (eligible ex None) srcs = filter (\<lambda>s. src_id s \<notin> set ex) (filter src_active srcs)"
  by (auto simp: eligible_None intro: filter_cong)

lemma distinct_ids_findClosestSources_try_Fin:
  assumes "distinct (map src_id (filter src_active srcs))"
  shows "distinct (map src_id (findClosestSources_try srcs (Fin a) (Fin b) n ex None))"
proof -
  have "distinct (map src_id (filter (in_radius a b) (filter (eligible ex None) srcs)))"
    unfolding filter_eligible_None
    by (rule distinct_map_filter, rule distinct_map_filter, rule assms)
  then have "distinct (map src_id (map (\<lambda>s. with_distance s (calculateDistance (Fin a, Fin b) s))
          (filter (in_radius a b) (filter (eligible ex None) srcs))))"
    by (simp add: o_def)
  then show ?thesis unfolding findClosestSources_try_Fin
    by (intro distinct_map_take) (simp only: distinct_map_sort_key)
qed

lemma length_findClosestSources_try_all_in_radius:
  assumes "\<forall>s \<in> set srcs. eligible ex cf s \<longrightarrow> in_radius a b s"
  shows "length (findClosestSources_try srcs (Fin a) (Fin b) n ex cf) =
         min n (length (filter (eligible ex cf) srcs))"
proof -
  have "filter (in_radius a b) (filter (eligible ex cf) srcs) = filter (eligible ex cf) srcs"
    by (rule filter_True) (use assms in auto)
  then show ?thesis unfolding findClosestSources_try_Fin by (simp add: min.commute)
qed

lemma in_radius_origin:
  assumes "- 1 \<le> src_x s" "src_x s \<le> 1" "- 1 \<le> src_y s" "src_y s \<le> 1"
  shows "in_radius 0 0 s"
proof -
  have "src_x s * src_x s \<le> 1" using assms(1,2) by (metis abs_le_iff abs_mult_self_eq mult_le_one abs_ge_zero minus_le_iff)
  moreover have "src_y s * src_y s \<le> 1" using assms(3,4) by (metis abs_le_iff abs_mult_self_eq mult_le_one abs_ge_zero minus_le_iff)
  ultimately have "src_x s * src_x s + src_y s * src_y s \<le> 4" by linarith
  then have "sqrt (src_x s * src_x s + src_y s * src_y s) \<le> sqrt 4" by (simp only: real_sqrt_le_iff)
  then show ?thesis by (simp add: in_radius_def)
qed

lemma count_unused:
  assumes "distinct (map src_id A)" "distinct I" "set I \<subseteq> set (map src_id A)"
  shows "length (filter (\<lambda>s. src_id s \<notin> set I) A) = length A - length I"
proof -
  have "length (filter (\<lambda>s. src_id s \<notin> set I) A) = length (filter (\<lambda>i. i \<notin> set I) (map src_id A))"
    by (simp only: filter_map length_map o_def)
  also have "\<dots> = card (set (filter (\<lambda>i. i \<notin> set I) (map src_id A)))"
    using distinct_filter[OF assms(1)] by (simp only: distinct_card)
  also have "set (filter (\<lambda>i. i \<notin> set I) (map src_id A)) = set (map src_id A) - set I" by auto
  also have "card (set (map src_id A) - set I) = card (set (map src_id A)) - card (set I)"
    using assms(3) by (simp add: card_Diff_subset)
  also have "\<dots> = length A - length I"
    using assms(1,2) distinct_card[of "map src_id A"] distinct_card[of I] by simp
  finally show ?thesis .
qed

subsection \<open>ensureSourceDiversity on sources with distinct ids\<close>

lemma diversity_pass_props:
  "distinct (map src_id (D @ ss)) \<Longrightarrow>
   distinct (map src_id (diversity_pass ss seen D)) \<and> set (diversity_pass ss seen D) \<subseteq> set (D @ ss)"
proof (induction ss arbitrary: seen D)
  case Nil
  then show ?case by simp
next
  case (Cons s ss)
  have d1: "distinct (map src_id ((D @ [s]) @ ss))" using Cons.prems by simp
  have d2: "distinct (map src_id (D @ ss))" using Cons.prems by simp
  show ?case
    using Cons.IH[OF d1, of "diversityKey s # seen"] Cons.IH[OF d2, of seen]
    by auto
qed

lemma fill_pass_props:
  assumes "distinct (map src_id S)" "n = length S"
  shows "set D \<subseteq> set S \<Longrightarrow> distinct (map src_id D) \<Longrightarrow> set ss \<subseteq> set S \<Longrightarrow>
         (\<forall>s \<in> set S. s \<in> set D \<or> s \<in> set ss) \<Longrightarrow>
         set (fill_pass n ss D) = set S \<and> distinct (map src_id (fill_pass n ss D))"
proof (induction ss arbitrary: D)
  case Nil
  then show ?case by auto
next
  case (Cons s ss)
  have dS: "distinct S" using assms(1) by (simp add: distinct_map)
  have dD: "distinct D" using Cons.prems(2) by (simp add: distinct_map)
  have sS: "s \<in> set S" using Cons.prems(3) by simp
  show ?case
  proof (cases "length D \<ge> n")
    case True
    have "card (set S) \<le> card (set D)" using True assms(2) dS dD by (simp add: distinct_card)
    then have "set D = set S" using Cons.prems(1) by (simp add: card_seteq)
    then show ?thesis using True Cons.prems(2) by simp
  next
    case False
    show ?thesis
    proof (cases "list_ex (\<lambda>d. src_id d = src_id s) D")
      case True
      then obtain d where d: "d \<in> set D" "src_id d = src_id s" by (auto simp: list_ex_iff)
      then have "d \<in> set S" using Cons.prems(1) by auto
      then have "d = s" using d(2) sS assms(1) by (meson distinct_map inj_onD)
      then have "s \<in> set D" using d(1) by simp
      then have cov: "\<forall>t \<in> set S. t \<in> set D \<or> t \<in> set ss" using Cons.prems(4) by auto
      have "set ss \<subseteq> set S" using Cons.prems(3) by simp
      from Cons.IH[OF Cons.prems(1) Cons.prems(2) this cov] show ?thesis
        using True False by simp
    next
      case nf: False
      have p1: "set (D @ [s]) \<subseteq> set S" using Cons.prems(1) sS by simp
      have p2: "distinct (map src_id (D @ [s]))" using Cons.prems(2) nf by (auto simp: list_ex_iff)
      have p3: "set ss \<subseteq> set S" using Cons.prems(3) by simp
      have p4: "\<forall>t \<in> set S. t \<in> set (D @ [s]) \<or> t \<in> set ss" using Cons.prems(4) by auto
      from Cons.IH[OF p1 p2 p3 p4] show ?thesis using nf False by simp
    qed
  qed
qed

lemma ensureSourceDiversity_distinct:
  assumes "distinct (map src_id S)"
  shows "set (ensureSourceDiversity S) = set S"
    and "distinct (map src_id (ensureSourceDiversity S))"
    and "length (ensureSourceDiversity S) = length S"
proof -
  let ?D = "diversity_pass S [] []"
  have dp: "distinct (map src_id ?D) \<and> set ?D \<subseteq> set ([] @ S)"
    by (rule diversity_pass_props) (use assms in simp)
  have fp: "set (fill_pass (length S) S ?D) = set S \<and> distinct (map src_id (fill_pass (length S) S ?D))"
    by (rule fill_pass_props[OF assms refl]) (use dp in auto)
  show s: "set (ensureSourceDiversity S) = set S" using fp by (simp add: ensureSourceDiversity_def)
  show d: "distinct (map src_id (ensureSourceDiversity S))" using fp by (simp add: ensureSourceDiversity_def)
  have "distinct (ensureSourceDiversity S)" using d by (simp add: distinct_map)
  moreover have "distinct S" using assms by (simp add: distinct_map)
  ultimately show "length (ensureSourceDiversity S) = length S"
    using s by (metis distinct_card)
qed

subsection \<open>pickSources on finite coordinates\<close>

lemma findClosestSources_Number:
  "findClosestSources srcs (Number nx) (Number ny) n ex cf =
     Inr (findClosestSources_try srcs nx ny n ex cf)"
  by (simp add: findClosestSources_def)

lemma pickSources_unfold:
  assumes "cat \<noteq> []" "categoryFilter opts = None"
    "fallbackStrategy opts = None \<or> fallbackStrategy opts = Some ''fill_remaining''"
  shows "fst (pickSources loaded cat (Number (Fin a)) (Number (Fin b)) (Some opts)) =
    Inr (let fc = count_or_default (friendlyCount opts);
         oc = count_or_default (opposingCount opts);
         F = findClosestSources_try cat (Fin a) (Fin b) fc [] None;
         Op = findClosestSources_try cat (Fin (- a)) (Fin (- b)) oc (map src_id F) None;
         all0 = map (with_side friendly False) F @ map (with_side opposing False) Op;
         all1 = (if length all0 < fc + oc
                 then all0 @ map (with_side neutral True)
                        (findClosestSources_try cat (Fin 0) (Fin 0)
                           (fc + oc - length all0) (map src_id all0) None)
                 else all0);
         all2 = (if (case ensureDiversity opts of None \<Rightarrow> True | Some b \<Rightarrow> b) \<and> length all1 > 1
                 then ensureSourceDiversity all1 else all1)
     in map final_source (take (fc + oc) all2))"
  using assms
  by (auto simp: pickSources_def pickSources_try_def Let_def
      count_or_default_def findClosestSources_Number)

lemma ids_subset_active:
  "set (map src_id (findClosestSources_try cat (Fin a) (Fin b) n ex None))
     \<subseteq> set (map src_id (filter src_active cat)) - set ex"
  using ids_findClosestSources_try_Fin[of cat a b n ex None]
  by (auto simp: eligible_None)

lemma selection_complete:
  assumes ne: "cat \<noteq> []" and cf: "categoryFilter opts = None"
    and fs: "fallbackStrategy opts = None \<or> fallbackStrategy opts = Some ''fill_remaining''"
    and uid: "unique_ids cat" and rng: "coords_in_range cat"
    and cnt: "count_or_default (friendlyCount opts) + count_or_default (opposingCount opts)
                \<le> length (filter src_active cat)"
  shows "\<exists>r. fst (pickSources loaded cat (Number (Fin a)) (Number (Fin b)) (Some opts)) = Inr r
           \<and> length r = count_or_default (friendlyCount opts) + count_or_default (opposingCount opts)
           \<and> distinct (map out_id r)"
proof -
  define fc where "fc = count_or_default (friendlyCount opts)"
  define oc where "oc = count_or_default (opposingCount opts)"
  define A where "A = filter src_active cat"
  define F where "F = findClosestSources_try cat (Fin a) (Fin b) fc [] None"
  define Op where "Op = findClosestSources_try cat (Fin (- a)) (Fin (- b)) oc (map src_id F) None"
  define all0 where "all0 = map (with_side friendly False) F @ map (with_side opposing False) Op"
  define B where "B = findClosestSources_try cat (Fin 0) (Fin 0)
                           (fc + oc - length all0) (map src_id all0) None"
  define all1 where "all1 = (if length all0 < fc + oc then all0 @ map (with_side neutral True) B else all0)"
  define all2 where "all2 = (if (case ensureDiversity opts of None \<Rightarrow> True | Some b \<Rightarrow> b) \<and> length all1 > 1
                 then ensureSourceDiversity all1 else all1)"
  have res: "fst (pickSources loaded cat (Number (Fin a)) (Number (Fin b)) (Some opts)) =
             Inr (map final_source (take (fc + oc) all2))"
    unfolding pickSources_unfold[OF ne cf fs] Let_def
    by (simp only: fc_def oc_def F_def Op_def all0_def B_def all1_def all2_def)
  have dA: "distinct (map src_id A)" using uid by (simp add: unique_ids_def A_def)
  have dF: "distinct (map src_id F)" unfolding F_def
    by (rule distinct_ids_findClosestSources_try_Fin) (use dA in \<open>simp add: A_def\<close>)
  have dOp: "distinct (map src_id Op)" unfolding Op_def
    by (rule distinct_ids_findClosestSources_try_Fin) (use dA in \<open>simp add: A_def\<close>)
  have sF: "set (map src_id F) \<subseteq> set (map src_id A)"
    using ids_subset_active[of cat a b fc "[]"] by (auto simp: F_def A_def)
  have sOp: "set (map src_id Op) \<subseteq> set (map src_id A) - set (map src_id F)"
    using ids_subset_active[of cat "- a" "- b" oc "map src_id F"] by (simp add: Op_def A_def)
  have ids0: "map src_id all0 = map src_id F @ map src_id Op"
    by (simp add: all0_def o_def)
  have d0: "distinct (map src_id all0)" unfolding ids0 using dF dOp sOp by auto
  have s0: "set (map src_id all0) \<subseteq> set (map src_id A)" unfolding ids0 using sF sOp by auto
  have l0: "length all0 \<le> fc + oc"
    using length_findClosestSources_try[of cat "Fin a" "Fin b" fc "[]" None]
      length_findClosestSources_try[of cat "Fin (- a)" "Fin (- b)" oc "map src_id F" None]
    by (simp add: all0_def F_def Op_def)
  have dB: "distinct (map src_id B)" unfolding B_def
    by (rule distinct_ids_findClosestSources_try_Fin) (use dA in \<open>simp add: A_def\<close>)
  have sB: "set (map src_id B) \<subseteq> set (map src_id A) - set (map src_id all0)"
    using ids_subset_active[of cat 0 0 "fc + oc - length all0" "map src_id all0"] by (simp add: B_def A_def)
  have lB: "length B = fc + oc - length all0"
  proof -
    have inr: "\<forall>s \<in> set cat. eligible (map src_id all0) None s \<longrightarrow> in_radius 0 0 s"
      using rng by (auto simp: coords_in_range_def list_all_iff eligible_None intro: in_radius_origin)
    have "length (filter (eligible (map src_id all0) None) cat) = length A - length all0"
      unfolding filter_eligible_None A_def[symmetric]
      using count_unused[OF dA d0 s0] by simp
    then have "length B = min (fc + oc - length all0) (length A - length all0)"
      unfolding B_def using length_findClosestSources_try_all_in_radius[OF inr] by simp
    then show ?thesis using cnt by (simp add: fc_def oc_def A_def)
  qed
  have l1: "length all1 = fc + oc" using l0 lB by (simp add: all1_def)
  have d1: "distinct (map src_id all1)"
    using d0 dB sB by (auto simp: all1_def o_def)
  have l2: "length all2 = fc + oc" using l1 ensureSourceDiversity_distinct(3)[OF d1] by (simp add: all2_def)
  have d2: "distinct (map src_id all2)" using d1 ensureSourceDiversity_distinct(2)[OF d1] by (simp add: all2_def)
  show ?thesis
    unfolding res using l2 d2 by (simp add: fc_def oc_def o_def)
qed

lemma sqrt_le_2_iff: "sqrt r \<le> 2 \<longleftrightarrow> r \<le> 4"
proof -
  have "sqrt r \<le> sqrt 4 \<longleftrightarrow> r \<le> 4" by (rule real_sqrt_le_iff)
  then show ?thesis by simp
qed

lemma square_le_one: "- 1 \<le> (u::real) \<Longrightarrow> u \<le> 1 \<Longrightarrow> u * u \<le> 1"
  by (metis abs_le_iff abs_mult_self_eq mult_le_one abs_ge_zero minus_le_iff)

lemma in_radius_mirror:
  assumes "- 1 \<le> a" "a \<le> 1" "- 1 \<le> b" "b \<le> 1"
    "- 1 \<le> src_x s" "src_x s \<le> 1" "- 1 \<le> src_y s" "src_y s \<le> 1"
    "\<not> in_radius a b s"
  shows "in_radius (- a) (- b) s"
proof -
  define P where "P = (a - src_x s) * (a - src_x s) + (b - src_y s) * (b - src_y s)"
  define Q where "Q = (- a - src_x s) * (- a - src_x s) + (- b - src_y s) * (- b - src_y s)"
  define T where "T = a * a + b * b + src_x s * src_x s + src_y s * src_y s"
  have eq: "P + Q = 2 * T"
    by (simp add: P_def Q_def T_def algebra_simps)
  have "a * a \<le> 1" "b * b \<le> 1" "src_x s * src_x s \<le> 1" "src_y s * src_y s \<le> 1"
    using assms by (simp_all add: square_le_one)
  then have "T \<le> 4" unfolding T_def by linarith
  then have "P + Q \<le> 8" using eq by linarith
  moreover have "4 < P" using assms(9) by (simp add: in_radius_def sqrt_le_2_iff P_def)
  ultimately have "Q \<le> 4" by linarith
  then show ?thesis by (simp add: in_radius_def sqrt_le_2_iff Q_def)
qed

lemma take_all_findClosestSources_try:
  assumes "length (filter src_active cat) \<le> n"
  shows "set (map src_id (findClosestSources_try cat (Fin a) (Fin b) n ex None)) =
         src_id ` {s \<in> set cat. src_active s \<and> src_id s \<notin> set ex \<and> in_radius a b s}"
proof -
  let ?L = "map (\<lambda>s. with_distance s (calculateDistance (Fin a, Fin b) s))
          (filter (in_radius a b) (filter (eligible ex None) cat))"
  have "length (filter (in_radius a b) (filter (\<lambda>s. src_id s \<notin> set ex) (filter src_active cat)))
        \<le> length (filter src_active cat)"
    by (meson le_trans length_filter_le)
  then have "length (sort_key distance_key ?L) \<le> n"
    using assms by (simp add: filter_eligible_None del: filter_filter)
  then have "take n (sort_key distance_key ?L) = sort_key distance_key ?L" by simp
  then have "set (map src_id (findClosestSources_try cat (Fin a) (Fin b) n ex None))
      = set (map src_id (sort_key distance_key ?L))"
    unfolding findClosestSources_try_Fin by (simp only:)
  also have "\<dots> = src_id ` set ?L" by (simp only: set_map set_sort)
  also have "\<dots> = src_id ` {s \<in> set cat. src_active s \<and> src_id s \<notin> set ex \<and> in_radius a b s}"
    by (auto simp: eligible_None image_image)
  finally show ?thesis .
qed

lemma selection_few_sources:
  assumes ne: "cat \<noteq> []" and cf: "categoryFilter opts = None"
    and fs: "fallbackStrategy opts = None \<or> fallbackStrategy opts = Some ''fill_remaining''"
    and uid: "unique_ids cat" and rng: "coords_in_range cat"
    and bias: "- 1 \<le> a" "a \<le> 1" "- 1 \<le> b" "b \<le> 1"
    and few: "length (filter src_active cat) \<le> count_or_default (friendlyCount opts)"
             "length (filter src_active cat) \<le> count_or_default (opposingCount opts)"
  shows "\<exists>r. fst (pickSources loaded cat (Number (Fin a)) (Number (Fin b)) (Some opts)) = Inr r
           \<and> length r = length (filter src_active cat)
           \<and> (\<forall>p \<in> set r. \<not> out_isFallback p)"
proof -
  define fc where "fc = count_or_default (friendlyCount opts)"
  define oc where "oc = count_or_default (opposingCount opts)"
  define A where "A = filter src_active cat"
  define Fr where "Fr = findClosestSources_try cat (Fin a) (Fin b) fc [] None"
  define Op where "Op = findClosestSources_try cat (Fin (- a)) (Fin (- b)) oc (map src_id Fr) None"
  define all0 where "all0 = map (with_side friendly False) Fr @ map (with_side opposing False) Op"
  define B where "B = findClosestSources_try cat (Fin 0) (Fin 0)
                           (fc + oc - length all0) (map src_id all0) None"
  define all1 where "all1 = (if length all0 < fc + oc then all0 @ map (with_side neutral True) B else all0)"
  define all2 where "all2 = (if (case ensureDiversity opts of None \<Rightarrow> True | Some b \<Rightarrow> b) \<and> length all1 > 1
                 then ensureSourceDiversity all1 else all1)"
  have res: "fst (pickSources loaded cat (Number (Fin a)) (Number (Fin b)) (Some opts)) =
             Inr (map final_source (take (fc + oc) all2))"
    unfolding pickSources_unfold[OF ne cf fs] Let_def
    by (simp only: fc_def oc_def Fr_def Op_def all0_def B_def all1_def all2_def)
  have dA: "distinct (map src_id A)" using uid by (simp add: unique_ids_def A_def)
  have inj: "inj_on src_id (set A)" using dA by (simp add: distinct_map)
  have dF: "distinct (map src_id Fr)" unfolding Fr_def
    by (rule distinct_ids_findClosestSources_try_Fin) (use dA in \<open>simp add: A_def\<close>)
  have dO: "distinct (map src_id Op)" unfolding Op_def
    by (rule distinct_ids_findClosestSources_try_Fin) (use dA in \<open>simp add: A_def\<close>)
  have sF: "set (map src_id Fr) = src_id ` {s \<in> set A. in_radius a b s}"
    unfolding Fr_def using take_all_findClosestSources_try[of cat fc a b "[]"] few(1)
    by (auto simp: fc_def A_def)
  have sO: "set (map src_id Op) =
      src_id ` {s \<in> set A. src_id s \<notin> set (map src_id Fr) \<and> in_radius (- a) (- b) s}"
    unfolding Op_def using take_all_findClosestSources_try[of cat oc "- a" "- b" "map src_id Fr"] few(2)
    by (auto simp: oc_def A_def)
  have ids0: "map src_id all0 = map src_id Fr @ map src_id Op"
    by (simp add: all0_def o_def)
  have disj: "set (map src_id Fr) \<inter> set (map src_id Op) = {}" unfolding sO by (force simp: image_iff)
  have d0: "distinct (map src_id all0)" unfolding ids0 using dF dO disj by simp
  have cover: "set (map src_id A) \<subseteq> set (map src_id all0)"
  proof
    fix i assume "i \<in> set (map src_id A)"
    then obtain s where s: "s \<in> set A" "i = src_id s" by auto
    have r: "- 1 \<le> src_x s \<and> src_x s \<le> 1 \<and> - 1 \<le> src_y s \<and> src_y s \<le> 1"
      using rng s(1) by (simp add: coords_in_range_def list_all_iff A_def)
    show "i \<in> set (map src_id all0)"
    proof (cases "in_radius a b s")
      case True
      then have "i \<in> set (map src_id Fr)" unfolding sF using s by auto
      then show ?thesis unfolding ids0 by simp
    next
      case False
      have "src_id s \<notin> set (map src_id Fr)"
      proof
        assume "src_id s \<in> set (map src_id Fr)"
        then obtain s' where s': "s' \<in> set A" "in_radius a b s'" "src_id s = src_id s'"
          unfolding sF by auto
        then have "s = s'" using inj s(1) by (auto dest: inj_onD)
        then show False using s'(2) False by simp
      qed
      moreover have "in_radius (- a) (- b) s"
        using in_radius_mirror[OF bias _ _ _ _ False] r by simp
      ultimately have "i \<in> set (map src_id Op)" unfolding sO using s by auto
      then show ?thesis unfolding ids0 by simp
    qed
  qed
  have "set (map src_id Fr) \<subseteq> set (map src_id A)" unfolding sF by auto
  moreover have "set (map src_id Op) \<subseteq> set (map src_id A)" unfolding sO by auto
  ultimately have sub: "set (map src_id all0) \<subseteq> set (map src_id A)" unfolding ids0 by simp
  have seq: "set (map src_id all0) = set (map src_id A)" using cover sub by auto
  have l0: "length all0 = length A"
    using d0 dA seq by (metis distinct_card length_map)
  have eB: "B = []"
  proof -
    have "filter (eligible (map src_id all0) None) cat = []"
      unfolding filter_eligible_None A_def[symmetric] using seq by (auto simp: filter_empty_conv)
    then show ?thesis by (simp add: B_def findClosestSources_try_Fin)
  qed
  have a1: "all1 = all0" by (simp add: all1_def eB)
  have nf0: "\<forall>s \<in> set all0. \<not> isFallback s" by (auto simp: all0_def)
  have s2: "set all2 = set all0" and l2: "length all2 = length all0"
    using ensureSourceDiversity_distinct(1,3)[OF d0] by (simp_all add: all2_def a1)
  have tk: "take (fc + oc) all2 = all2" using l2 l0 few(1) by (simp add: fc_def A_def)
  have "\<forall>p \<in> set (map final_source all2). \<not> out_isFallback p"
    using s2 nf0 by auto
  then show ?thesis
    unfolding res tk using l2 l0 by (simp add: A_def)
qed

subsection \<open>Evaluating the selection on concrete catalogs\<close>

lemmas fcs_eval = findClosestSources_try_def calculateDistance_def eligible_def with_distance_def
  MAX_SEARCH_RADIUS_def distance_key_def truthy_str_def Let_def sqrt_le_2_iff

lemma org_alpha: "extractOrganization ''Alpha'' = ''alpha''" by code_simp
lemma org_alpha2: "extractOrganization ''Alpha Daily'' = ''alpha daily''" by code_simp
lemma org_beta: "extractOrganization ''Beta'' = ''beta''" by code_simp
lemma org_gamma: "extractOrganization ''Gamma'' = ''gamma''" by code_simp

lemma dup_F:
  "findClosestSources_try [src ''a'' ''Alpha'' 0 0, src ''a'' ''Alpha Daily'' 0 0, src ''b'' ''Beta'' 1 0, src ''c'' ''Gamma'' 0 1]
      (Fin 0) (Fin 0) 2 [] None =
   [with_distance (src ''a'' ''Alpha'' 0 0) (Fin 0), with_distance (src ''a'' ''Alpha Daily'' 0 0) (Fin 0)]"
  by (simp add: fcs_eval)

lemma dup_O:
  "findClosestSources_try [src ''a'' ''Alpha'' 0 0, src ''a'' ''Alpha Daily'' 0 0, src ''b'' ''Beta'' 1 0, src ''c'' ''Gamma'' 0 1]
      (Fin 0) (Fin 0) 2 [''a'', ''a''] None =
   [with_distance (src ''b'' ''Beta'' 1 0) (Fin 1), with_distance (src ''c'' ''Gamma'' 0 1) (Fin 1)]"
  by (simp add: fcs_eval)

subsection \<open>The selection claims\<close>

lemma org_delta: "extractOrganization ''Delta'' = ''delta''" by code_simp

lemma dup_div:
  "ensureSourceDiversity
     [with_side friendly False (with_distance (src ''a'' ''Alpha'' 0 0) (Fin 0)),
      with_side friendly False (with_distance (src ''a'' ''Alpha Daily'' 0 0) (Fin 0)),
      with_side opposing False (with_distance (src ''b'' ''Beta'' 1 0) (Fin 1)),
      with_side opposing False (with_distance (src ''c'' ''Gamma'' 0 1) (Fin 1))]
   = [with_side friendly False (with_distance (src ''a'' ''Alpha'' 0 0) (Fin 0)),
      with_side friendly False (with_distance (src ''a'' ''Alpha Daily'' 0 0) (Fin 0)),
      with_side opposing False (with_distance (src ''b'' ''Beta'' 1 0) (Fin 1)),
      with_side opposing False (with_distance (src ''c'' ''Gamma'' 0 1) (Fin 1))]"
  by (simp add: ensureSourceDiversity_def diversityKey_def with_side_def with_distance_def
      org_alpha org_alpha2 org_beta org_gamma)

lemma four_F:
  "findClosestSources_try [src ''a'' ''Alpha'' 0 0, src ''b'' ''Beta'' 1 0, src ''c'' ''Gamma'' 0 1, src ''d'' ''Delta'' (- 1) 0]
      (Fin 0) (Fin 0) 3 [] None =
   [with_distance (src ''a'' ''Alpha'' 0 0) (Fin 0), with_distance (src ''b'' ''Beta'' 1 0) (Fin 1),
    with_distance (src ''c'' ''Gamma'' 0 1) (Fin 1)]"
  by (simp add: fcs_eval)

lemma four_O:
  "findClosestSources_try [src ''a'' ''Alpha'' 0 0, src ''b'' ''Beta'' 1 0, src ''c'' ''Gamma'' 0 1, src ''d'' ''Delta'' (- 1) 0]
      (Fin 0) (Fin 0) 3 [''a'', ''b'', ''c''] None =
   [with_distance (src ''d'' ''Delta'' (- 1) 0) (Fin 1)]"
  by (simp add: fcs_eval)

lemma four_B:
  "findClosestSources_try [src ''a'' ''Alpha'' 0 0, src ''b'' ''Beta'' 1 0, src ''c'' ''Gamma'' 0 1, src ''d'' ''Delta'' (- 1) 0]
      (Fin 0) (Fin 0) 2 [''a'', ''b'', ''c'', ''d''] None = []"
  by (simp add: fcs_eval)

lemma four_div:
  "ensureSourceDiversity
     [with_side friendly False (with_distance (src ''a'' ''Alpha'' 0 0) (Fin 0)),
      with_side friendly False (with_distance (src ''b'' ''Beta'' 1 0) (Fin 1)),
      with_side friendly False (with_distance (src ''c'' ''Gamma'' 0 1) (Fin 1)),
      with_side opposing False (with_distance (src ''d'' ''Delta'' (- 1) 0) (Fin 1))]
   = [with_side friendly False (with_distance (src ''a'' ''Alpha'' 0 0) (Fin 0)),
      with_side friendly False (with_distance (src ''b'' ''Beta'' 1 0) (Fin 1)),
      with_side friendly False (with_distance (src ''c'' ''Gamma'' 0 1) (Fin 1)),
      with_side opposing False (with_distance (src ''d'' ''Delta'' (- 1) 0) (Fin 1))]"
  by (simp add: ensureSourceDiversity_def diversityKey_def with_side_def with_distance_def
      org_alpha org_beta org_gamma org_delta)

lemma two_F:
  "findClosestSources_try [src ''a'' ''Alpha'' 0 0, src ''b'' ''Beta'' 1 0]
      (Fin 0) (Fin 0) 2 [] None =
   [with_distance (src ''a'' ''Alpha'' 0 0) (Fin 0), with_distance (src ''b'' ''Beta'' 1 0) (Fin 1)]"
  by (simp add: fcs_eval)

lemma two_O:
  "findClosestSources_try [src ''a'' ''Alpha'' 0 0, src ''b'' ''Beta'' 1 0]
      (Fin 0) (Fin 0) 2 [''a'', ''b''] None = []"
  by (simp add: fcs_eval)

lemma two_div:
  "ensureSourceDiversity
     [with_side friendly False (with_distance (src ''a'' ''Alpha'' 0 0) (Fin 0)),
      with_side friendly False (with_distance (src ''b'' ''Beta'' 1 0) (Fin 1))]
   = [with_side friendly False (with_distance (src ''a'' ''Alpha'' 0 0) (Fin 0)),
      with_side friendly False (with_distance (src ''b'' ''Beta'' 1 0) (Fin 1))]"
  by (simp add: ensureSourceDiversity_def diversityKey_def with_side_def with_distance_def
      org_alpha org_beta)

text \<open>A file with a repeated id passes \<open>validateSources\<close> unchanged: duplicates are
  only logged.\<close>

lemma duplicate_ids_accepted:
  "loadSources 4 (Some
     [\<lparr>raw_id = Some ''a'', raw_name = Some ''Alpha'', raw_x = Some 0, raw_y = Some 0,
       raw_category = None, raw_active = None\<rparr>,
      \<lparr>raw_id = Some ''a'', raw_name = Some ''Alpha Daily'', raw_x = Some 0, raw_y = Some 0,
       raw_category = None, raw_active = None\<rparr>,
      \<lparr>raw_id = Some ''b'', raw_name = Some ''Beta'', raw_x = Some 1, raw_y = Some 0,
       raw_category = None, raw_active = None\<rparr>,
      \<lparr>raw_id = Some ''c'', raw_name = Some ''Gamma'', raw_x = Some 0, raw_y = Some 1,
       raw_category = None, raw_active = None\<rparr>])
   = [src ''a'' ''Alpha'' 0 0, src ''a'' ''Alpha Daily'' 0 0, src ''b'' ''Beta'' 1 0, src ''c'' ''Gamma'' 0 1]"
  by (simp add: loadSources_def validateSources_def raw_valid_def raw_defaults_def truthy_str_def)

text \<open>
  C1 (as amended). For every bias coordinate \<open>(a, b)\<close> with \<open>a, b\<close> in \<open>[-1, 1]\<close>
  and every catalog with at least 4 active sources whose active records have pairwise
  distinct ids and coordinates in \<open>[-1, 1]\<close>, with no category filter and the
  \<open>fill_remaining\<close> fallback strategy, if the catalog has at least
  \<open>friendlyCount + opposingCount\<close> active sources then \<open>pickSources\<close> returns exactly
  \<open>friendlyCount + opposingCount\<close> entries (4 under the defaults) and their ids are
  pairwise distinct.
\<close>

theorem pickSources_count_and_unique_ids:
  assumes "- 1 \<le> a" "a \<le> 1" "- 1 \<le> b" "b \<le> 1"
    and "4 \<le> length (filter src_active cat)"
    and "unique_ids cat" "coords_in_range cat"
    and "categoryFilter opts = None"
    and "fallbackStrategy opts = None \<or> fallbackStrategy opts = Some ''fill_remaining''"
    and "count_or_default (friendlyCount opts) + count_or_default (opposingCount opts)
           \<le> length (filter src_active cat)"
  shows "\<exists>r. fst (pickSources loaded cat (Number (Fin a)) (Number (Fin b)) (Some opts)) = Inr r
           \<and> length r = count_or_default (friendlyCount opts) + count_or_default (opposingCount opts)
           \<and> distinct (map out_id r)"
proof -
  have ne: "cat \<noteq> []" using assms(5) by auto
  show ?thesis
    by (rule selection_complete[OF ne assms(8) assms(9) assms(6) assms(7) assms(10)])
qed

theorem pickSources_count_and_unique_ids_witness:
  "unique_ids getDefaultSources \<and> coords_in_range getDefaultSources
   \<and> 4 \<le> length (filter src_active getDefaultSources)
   \<and> (\<exists>r. fst (pickSources [] getDefaultSources (Number (Fin 0.3)) (Number (Fin (- 1)))
                (Some default_options)) = Inr r
          \<and> length r = 4 \<and> distinct (map out_id r))"
  using pickSources_count_and_unique_ids [of "0.3" "- 1" getDefaultSources default_options "[]"]
  by (simp add: unique_ids_def coords_in_range_def getDefaultSources_def default_options_def
      count_or_default_def)

text \<open>The claim as stated covers every catalog state and every pair of counts. A catalog
  in which two active records share an id (accepted by \<open>validateSources\<close>) yields the
  id twice; a catalog of four sources asked for 3 + 3 yields four entries, not six.\<close>

theorem pickSources_count_and_unique_ids_counterexample:
  "map_sum id (map out_id) (fst (pickSources []
      [src ''a'' ''Alpha'' 0 0, src ''a'' ''Alpha Daily'' 0 0, src ''b'' ''Beta'' 1 0, src ''c'' ''Gamma'' 0 1]
      (Number (Fin 0)) (Number (Fin 0)) (Some default_options))) = Inr [''a'', ''a'', ''b'', ''c'']
   \<and> map_sum id (map out_id) (fst (pickSources []
      [src ''a'' ''Alpha'' 0 0, src ''b'' ''Beta'' 1 0, src ''c'' ''Gamma'' 0 1, src ''d'' ''Delta'' (- 1) 0]
      (Number (Fin 0)) (Number (Fin 0))
      (Some \<lparr>friendlyCount = Some 3, opposingCount = Some 3, categoryFilter = None,
             ensureDiversity = None, fallbackStrategy = None, stringifies = True\<rparr>)))
       = Inr [''a'', ''b'', ''c'', ''d'']"
  by (simp add: pickSources_unfold Let_def default_options_def count_or_default_def
      dup_F dup_O dup_div four_F four_O four_B four_div)

text \<open>
  C2 (as amended). For a catalog with exactly 2 active sources (distinct ids, coordinates
  in \<open>[-1, 1]\<close>), \<open>friendlyCount = 2\<close>, \<open>opposingCount = 2\<close>, no category filter
  and a bias coordinate with both components in \<open>[-1, 1]\<close>, \<open>pickSources\<close> returns a list of length 2
  in which no entry is marked \<open>isFallback\<close>.
\<close>

theorem pickSources_two_sources:
  assumes "- 1 \<le> a" "a \<le> 1" "- 1 \<le> b" "b \<le> 1"
    and "length (filter src_active cat) = 2"
    and "unique_ids cat" "coords_in_range cat"
    and "categoryFilter opts = None"
    and "fallbackStrategy opts = None \<or> fallbackStrategy opts = Some ''fill_remaining''"
    and "count_or_default (friendlyCount opts) = 2" "count_or_default (opposingCount opts) = 2"
  shows "\<exists>r. fst (pickSources loaded cat (Number (Fin a)) (Number (Fin b)) (Some opts)) = Inr r
           \<and> length r = 2 \<and> (\<forall>p \<in> set r. \<not> out_isFallback p)"
proof -
  have ne: "cat \<noteq> []" using assms(5) by auto
  have f1: "length (filter src_active cat) \<le> count_or_default (friendlyCount opts)"
    and f2: "length (filter src_active cat) \<le> count_or_default (opposingCount opts)"
    using assms(5,10,11) by simp_all
  show ?thesis
    using selection_few_sources[OF ne assms(8) assms(9) assms(6) assms(7) assms(1-4) f1 f2] assms(5)
    by simp
qed

theorem pickSources_two_sources_witness:
  "length (filter src_active [src ''a'' ''Alpha'' 0 0, src ''b'' ''Beta'' 1 0]) = 2
   \<and> unique_ids [src ''a'' ''Alpha'' 0 0, src ''b'' ''Beta'' 1 0]
   \<and> coords_in_range [src ''a'' ''Alpha'' 0 0, src ''b'' ''Beta'' 1 0]
   \<and> (\<exists>r. fst (pickSources [] [src ''a'' ''Alpha'' 0 0, src ''b'' ''Beta'' 1 0]
        (Number (Fin 1)) (Number (Fin (- 0.5))) (Some default_options)) = Inr r
          \<and> length r = 2 \<and> \<not> list_ex out_isFallback r)"
  using pickSources_two_sources [of 1 "- 0.5" "[src ''a'' ''Alpha'' 0 0, src ''b'' ''Beta'' 1 0]"
          default_options "[]"]
  by (simp add: unique_ids_def coords_in_range_def default_options_def count_or_default_def
      list_ex_iff)

text \<open>The claim as stated expects four entries, two of them fallbacks: the fallback
  search excludes the ids already chosen, so two sources give two entries.\<close>

theorem pickSources_two_sources_counterexample:
  "map_sum id (map (\<lambda>p. (out_id p, out_isFallback p)))
     (fst (pickSources [] [src ''a'' ''Alpha'' 0 0, src ''b'' ''Beta'' 1 0]
        (Number (Fin 0)) (Number (Fin 0))
        (Some \<lparr>friendlyCount = Some 2, opposingCount = Some 2, categoryFilter = None,
               ensureDiversity = None, fallbackStrategy = None, stringifies = True\<rparr>)))
   = Inr [(''a'', False), (''b'', False)]"
  by (simp add: pickSources_unfold Let_def count_or_default_def two_F two_O two_div)

lemma getEmergencyFallbackSources_ids:
  "map out_id getEmergencyFallbackSources = map src_id (take 4 getDefaultSources)"
  by (simp add: getEmergencyFallbackSources_def getDefaultSources_def)

lemma getEmergencyFallbackSources_all_fallback:
  "\<forall>p \<in> set getEmergencyFallbackSources. out_isFallback p \<and> out_isEmergencyFallback p"
  by (simp add: getEmergencyFallbackSources_def getDefaultSources_def)

lemma pickSources_try_raises_iff:
  "(\<exists>e. fst (pickSources_try loaded sources x y opts) = Inl e) \<longleftrightarrow>
   (opts = None \<or> \<not> is_number x \<or> \<not> is_number y)"
proof (cases opts)
  case None
  then show ?thesis by (simp add: pickSources_try_def)
next
  case (Some options)
  show ?thesis
  proof (cases "is_number x \<and> is_number y")
    case True
    then obtain nx ny where "x = Number nx" "y = Number ny"
      by (auto simp: is_number_def split: jscoord.splits)
    then show ?thesis using Some
      by (simp add: pickSources_try_def Let_def is_number_def
          findClosestSources_Number)
  next
    case False
    then show ?thesis using Some
      by (auto simp: pickSources_try_def Let_def is_number_def split: jscoord.splits)
  qed
qed

text \<open>When the logger can write the arguments, \<open>pickSources\<close> returns on every input,
  and returns the emergency list whenever something was raised inside its \<open>try\<close>
  (\<open>null\<close> options, or a coordinate that is not a number).\<close>

lemma pickSources_loggable_returns:
  assumes "loggable x" "loggable y" "options_loggable opts"
  shows "\<exists>r. fst (pickSources loaded sources x y opts) = Inr r"
    and "opts = None \<or> \<not> is_number x \<or> \<not> is_number y \<Longrightarrow>
         fst (pickSources loaded sources x y opts) = Inr getEmergencyFallbackSources"
proof -
  obtain res srcs where t: "pickSources_try loaded sources x y opts = (res, srcs)"
    by (cases "pickSources_try loaded sources x y opts")
  show "\<exists>r. fst (pickSources loaded sources x y opts) = Inr r"
    using assms t by (cases res) (simp_all add: pickSources_def)
  assume "opts = None \<or> \<not> is_number x \<or> \<not> is_number y"
  then obtain e where "res = Inl e"
    using pickSources_try_raises_iff[of loaded sources x y opts] t by auto
  then show "fst (pickSources loaded sources x y opts) = Inr getEmergencyFallbackSources"
    using assms t by (simp add: pickSources_def)
qed

lemma getEmergencyFallbackSources_length: "length getEmergencyFallbackSources = 4"
  by (simp add: getEmergencyFallbackSources_def getDefaultSources_def)

text \<open>
  C4. \<open>pickSources\<close> is to return on every input, with the emergency fallback list
  (the first 4 built-in default sources, each marked \<open>isFallback\<close>) whenever something
  is raised inside it. The code raises instead when a coordinate is a BigInt: the
  \<open>typeof\<close> check raises inside the \<open>try\<close>, the \<open>catch\<close> logs the raw
  coordinates before anything else, the logger's \<open>JSON.stringify\<close> raises TypeError
  on the BigInt, and that error leaves \<open>pickSources\<close>. The same call with a string
  in place of the BigInt returns the emergency list.
\<close>

theorem pickSources_bigint_raises:
  "fst (pickSources [] getDefaultSources (BigInt 10) (Number (Fin 0)) (Some default_options))
     = Inl TypeError
   \<and> fst (pickSources [] getDefaultSources (NonNumber (Str ''10'')) (Number (Fin 0))
            (Some default_options))
     = Inr getEmergencyFallbackSources"
  by (simp add: pickSources_def pickSources_try_def is_number_def loggable_def
      options_loggable_def default_options_def Let_def)

section \<open>Properties of the feed handler\<close>

lemma MemoryCache_get_no_write:
  "map_of (cache (snd (MemoryCache_get mc now k))) k' = None
   \<or> map_of (cache (snd (MemoryCache_get mc now k))) k' = map_of (cache mc) k'"
proof (cases "map_of (cache mc) k")
  case None
  then show ?thesis by (simp add: MemoryCache_get_def)
next
  case (Some it)
  have "map_of (Map_set (Map_delete (cache mc) k) k it) = map_of (cache mc)"
    using Some by (auto simp: map_of_Map_set map_of_Map_delete fun_eq_iff)
  then show ?thesis using Some
    by (auto simp: MemoryCache_get_def map_of_Map_delete)
qed

lemma getCache_no_write:
  "redis (snd (getCache ok now st k)) = redis st
   \<and> (map_of (cache (memoryCache (snd (getCache ok now st k)))) k' = None
      \<or> map_of (cache (memoryCache (snd (getCache ok now st k)))) k' = map_of (cache (memoryCache st)) k')"
  using MemoryCache_get_no_write[of "memoryCache st" now k k']
  by (auto simp: getCache_def memory_get_def Let_def split: option.splits)

lemma feed_read_no_write:
  "redis (snd (feed_read env cs x y refresh)) = redis cs
   \<and> (map_of (cache (memoryCache (snd (feed_read env cs x y refresh)))) k' = None
      \<or> map_of (cache (memoryCache (snd (feed_read env cs x y refresh)))) k' = map_of (cache (memoryCache cs)) k')"
  using getCache_no_write[of "redis_get_ok env" "now_get env" cs "cacheKey env x y" k']
  by (simp add: feed_read_def)

lemma cacheKey_nonempty: "cacheKey env x y \<noteq> []"
  by (simp add: cacheKey_def)

lemma feed_handler_provider_fails:
  assumes "past_cache env st x y refresh" "selected_for_request env st x y \<noteq> []"
    "getArticlesBySources env (map out_id (selected_for_request env st x y)) = Inl e"
  shows "fst (feed_handler env st (Inr (x, y, refresh))) = Status500"
    and "fst (snd (feed_handler env st (Inr (x, y, refresh)))) = snd (feed_read env (fst st) x y refresh)"
  using assms
  by (auto simp: feed_handler_def Let_def past_cache_def selected_for_request_def
      split: sum.splits)

lemma feed_handler_provider_answers:
  assumes "past_cache env st x y refresh" "selected_for_request env st x y \<noteq> []"
    "getArticlesBySources env (map out_id (selected_for_request env st x y)) = Inr articles"
  shows "fst (feed_handler env st (Inr (x, y, refresh))) =
           JsonCards (build_cards (selected_for_request env st x y) articles [] [])"
    and "build_cards (selected_for_request env st x y) articles [] [] = [] \<Longrightarrow>
         fst (snd (feed_handler env st (Inr (x, y, refresh)))) = snd (feed_read env (fst st) x y refresh)"
    and "build_cards (selected_for_request env st x y) articles [] [] \<noteq> [] \<Longrightarrow>
         fst (snd (feed_handler env st (Inr (x, y, refresh)))) =
           snd (setCache (redis_set_ok env) (now_set env) (snd (feed_read env (fst st) x y refresh))
                  (cacheKey env x y)
                  (Str (JSON_stringify env (build_cards (selected_for_request env st x y) articles [] [])))
                  (feed_ttl env))"
proof -
  let ?cards = "build_cards (selected_for_request env st x y) articles [] []"
  let ?w = "setCache (redis_set_ok env) (now_set env) (snd (feed_read env (fst st) x y refresh))
                  (cacheKey env x y) (Str (JSON_stringify env ?cards)) (feed_ttl env)"
  have ok: "fst ?w = Inr True"
    unfolding setCache_Str_cases[OF cacheKey_nonempty] by simp
  show "fst (feed_handler env st (Inr (x, y, refresh))) = JsonCards ?cards"
    using assms ok
    by (auto simp: feed_handler_def Let_def past_cache_def selected_for_request_def
        split: sum.splits)
  show "?cards = [] \<Longrightarrow>
         fst (snd (feed_handler env st (Inr (x, y, refresh)))) = snd (feed_read env (fst st) x y refresh)"
    using assms
    by (auto simp: feed_handler_def Let_def past_cache_def selected_for_request_def
        split: sum.splits)
  show "?cards \<noteq> [] \<Longrightarrow> fst (snd (feed_handler env st (Inr (x, y, refresh)))) = snd ?w"
    using assms ok
    by (auto simp: feed_handler_def Let_def past_cache_def selected_for_request_def
        split: sum.splits)
qed

lemma two_selected:
  "fst (pickSources [] [src ''a'' ''Alpha'' 0 0, src ''b'' ''Beta'' 1 0]
        (Number (Fin 0)) (Number (Fin 0)) (Some default_options)) =
   Inr [\<lparr>out_id = ''a'', out_name = ''Alpha'', out_side = friendly, out_x = 0, out_y = 0,
     out_distance = Fin 0, out_category = ''general'', out_isFallback = False,
     out_isEmergencyFallback = False\<rparr>,
    \<lparr>out_id = ''b'', out_name = ''Beta'', out_side = friendly, out_x = 1, out_y = 0,
     out_distance = Fin 1, out_category = ''general'', out_isFallback = False,
     out_isEmergencyFallback = False\<rparr>]"
proof -
  have "fst (pickSources [] [src ''a'' ''Alpha'' 0 0, src ''b'' ''Beta'' 1 0]
        (Number (Fin 0)) (Number (Fin 0)) (Some default_options)) =
     Inr (map final_source
       [with_side friendly False (with_distance (src ''a'' ''Alpha'' 0 0) (Fin 0)),
        with_side friendly False (with_distance (src ''b'' ''Beta'' 1 0) (Fin 1))])"
    by (simp add: pickSources_unfold Let_def default_options_def count_or_default_def
        two_F two_O two_div)
  then show ?thesis by (simp add: final_source_def with_side_def with_distance_def)
qed

text \<open>
  C9. For a validated request that gets past the cache and selects at least one source:
  (1) if the article-provider call raises, the handler answers 500 and the cache is
  left as the initial cache read left it: Redis is unchanged and the memory cache holds
  under the feed key what it held before, or nothing; (2) if the provider answers, the
  handler answers with the assembled cards, and calls \<open>setCache\<close> with the feed key,
  the serialised cards and the configured time-to-live exactly when at least one card was
  produced (after which the memory cache holds the cards under the feed key); with no
  cards the cache is left as the read left it; (3) with \<open>CACHE_TTL_FEED\<close> unset the
  time-to-live is 1800 seconds.
\<close>

theorem feed_provider_failure_and_caching:
  "(past_cache env st x y refresh \<and> selected_for_request env st x y \<noteq> []
      \<and> getArticlesBySources env (map out_id (selected_for_request env st x y)) = Inl e \<longrightarrow>
        fst (feed_handler env st (Inr (x, y, refresh))) = Status500
      \<and> fst (snd (feed_handler env st (Inr (x, y, refresh)))) = snd (feed_read env (fst st) x y refresh)
      \<and> redis (fst (snd (feed_handler env st (Inr (x, y, refresh))))) = redis (fst st)
      \<and> (map_of (cache (memoryCache (fst (snd (feed_handler env st (Inr (x, y, refresh))))))) (cacheKey env x y)
            = None
         \<or> map_of (cache (memoryCache (fst (snd (feed_handler env st (Inr (x, y, refresh))))))) (cacheKey env x y)
            = map_of (cache (memoryCache (fst st))) (cacheKey env x y)))
   \<and> (past_cache env st x y refresh \<and> selected_for_request env st x y \<noteq> []
      \<and> getArticlesBySources env (map out_id (selected_for_request env st x y)) = Inr articles \<longrightarrow>
        fst (feed_handler env st (Inr (x, y, refresh))) =
          JsonCards (build_cards (selected_for_request env st x y) articles [] [])
      \<and> (build_cards (selected_for_request env st x y) articles [] [] = [] \<longrightarrow>
           fst (snd (feed_handler env st (Inr (x, y, refresh)))) = snd (feed_read env (fst st) x y refresh))
      \<and> (build_cards (selected_for_request env st x y) articles [] [] \<noteq> [] \<longrightarrow>
           fst (snd (feed_handler env st (Inr (x, y, refresh)))) =
             snd (setCache (redis_set_ok env) (now_set env) (snd (feed_read env (fst st) x y refresh))
                    (cacheKey env x y)
                    (Str (JSON_stringify env (build_cards (selected_for_request env st x y) articles [] [])))
                    (feed_ttl env))
         \<and> map_of (cache (memoryCache (fst (snd (feed_handler env st (Inr (x, y, refresh)))))))
               (cacheKey env x y) =
             Some \<lparr>item_value = Str (JSON_stringify env (build_cards (selected_for_request env st x y) articles [] [])),
                   expires = (if truthy_num (feed_ttl env)
                              then Some (now_set env + the (feed_ttl env) * 1000) else None)\<rparr>))
   \<and> (\<not> truthy_str (CACHE_TTL_FEED env) \<longrightarrow> feed_ttl env = Some 1800)"
proof (intro conjI impI)
  assume a: "past_cache env st x y refresh \<and> selected_for_request env st x y \<noteq> []
      \<and> getArticlesBySources env (map out_id (selected_for_request env st x y)) = Inl e"
  then have r: "fst (feed_handler env st (Inr (x, y, refresh))) = Status500"
    and s: "fst (snd (feed_handler env st (Inr (x, y, refresh)))) = snd (feed_read env (fst st) x y refresh)"
    using feed_handler_provider_fails[of env st x y refresh e] by blast+
  show "fst (feed_handler env st (Inr (x, y, refresh))) = Status500" by (rule r)
  show "fst (snd (feed_handler env st (Inr (x, y, refresh)))) = snd (feed_read env (fst st) x y refresh)"
    by (rule s)
  show "redis (fst (snd (feed_handler env st (Inr (x, y, refresh))))) = redis (fst st)"
    unfolding s using feed_read_no_write[of env "fst st" x y refresh] by blast
  show "map_of (cache (memoryCache (fst (snd (feed_handler env st (Inr (x, y, refresh))))))) (cacheKey env x y)
            = None
         \<or> map_of (cache (memoryCache (fst (snd (feed_handler env st (Inr (x, y, refresh))))))) (cacheKey env x y)
            = map_of (cache (memoryCache (fst st))) (cacheKey env x y)"
    unfolding s using feed_read_no_write[of env "fst st" x y refresh "cacheKey env x y"] by blast
next
  assume a: "past_cache env st x y refresh \<and> selected_for_request env st x y \<noteq> []
      \<and> getArticlesBySources env (map out_id (selected_for_request env st x y)) = Inr articles"
  let ?cards = "build_cards (selected_for_request env st x y) articles [] []"
  show "fst (feed_handler env st (Inr (x, y, refresh))) = JsonCards ?cards"
    using a feed_handler_provider_answers(1)[of env st x y refresh articles] by blast
  show "fst (snd (feed_handler env st (Inr (x, y, refresh)))) = snd (feed_read env (fst st) x y refresh)"
    if "?cards = []"
    using a that feed_handler_provider_answers(2)[of env st x y refresh articles] by blast
  have w: "fst (snd (feed_handler env st (Inr (x, y, refresh)))) =
             snd (setCache (redis_set_ok env) (now_set env) (snd (feed_read env (fst st) x y refresh))
                    (cacheKey env x y) (Str (JSON_stringify env ?cards)) (feed_ttl env))"
    if "?cards \<noteq> []"
    using a that feed_handler_provider_answers(3)[of env st x y refresh articles] by blast
  show "fst (snd (feed_handler env st (Inr (x, y, refresh)))) =
             snd (setCache (redis_set_ok env) (now_set env) (snd (feed_read env (fst st) x y refresh))
                    (cacheKey env x y) (Str (JSON_stringify env ?cards)) (feed_ttl env))"
    if "?cards \<noteq> []" using w[OF that] .
  show "map_of (cache (memoryCache (fst (snd (feed_handler env st (Inr (x, y, refresh)))))))
               (cacheKey env x y) =
             Some \<lparr>item_value = Str (JSON_stringify env ?cards),
                   expires = (if truthy_num (feed_ttl env)
                              then Some (now_set env + the (feed_ttl env) * 1000) else None)\<rparr>"
    if "?cards \<noteq> []"
    unfolding w[OF that] by (rule setCache_Str_memory[OF cacheKey_nonempty])
next
  assume "\<not> truthy_str (CACHE_TTL_FEED env)"
  then show "feed_ttl env = Some 1800" by (simp add: feed_ttl_def)
qed

theorem feed_provider_failure_and_caching_witness:
  "fst (feed_handler
      \<lparr>toFixed3 = (\<lambda>r. ''0.000''), JSON_parses = (\<lambda>s. True),
       JSON_stringify = (\<lambda>cs. concat (map articleId cs)), parseInt = (\<lambda>s. None),
       getArticlesBySources = (\<lambda>ids. Inl (Error ''NewsAPI service temporarily unavailable'')),
       CACHE_TTL_FEED = None, redis_get_ok = True, redis_set_ok = True,
       now_get = 10, now_set = 20, loaded_sources = []\<rparr>
      (\<lparr>client = False, isRedisConnected = False, redis = [], memoryCache = MemoryCache_new 1000\<rparr>,
       [src ''a'' ''Alpha'' 0 0, src ''b'' ''Beta'' 1 0])
      (Inr (0, 0, False))) = Status500
   \<and> fst (snd (feed_handler
      \<lparr>toFixed3 = (\<lambda>r. ''0.000''), JSON_parses = (\<lambda>s. True),
       JSON_stringify = (\<lambda>cs. concat (map articleId cs)), parseInt = (\<lambda>s. None),
       getArticlesBySources = (\<lambda>ids. Inl (Error ''NewsAPI service temporarily unavailable'')),
       CACHE_TTL_FEED = None, redis_get_ok = True, redis_set_ok = True,
       now_get = 10, now_set = 20, loaded_sources = []\<rparr>
      (\<lparr>client = False, isRedisConnected = False, redis = [], memoryCache = MemoryCache_new 1000\<rparr>,
       [src ''a'' ''Alpha'' 0 0, src ''b'' ''Beta'' 1 0])
      (Inr (0, 0, False))))
     = \<lparr>client = False, isRedisConnected = False, redis = [], memoryCache = MemoryCache_new 1000\<rparr>
   \<and> map sourceId (case fst (feed_handler
      \<lparr>toFixed3 = (\<lambda>r. ''0.000''), JSON_parses = (\<lambda>s. True),
       JSON_stringify = (\<lambda>cs. concat (map articleId cs)), parseInt = (\<lambda>s. None),
       getArticlesBySources = (\<lambda>ids. Inr [\<lparr>art_url = ''u1'', art_title = ''t'', art_urlToImage = ''i'',
          art_publishedAt = ''p'', art_description = ''d'', art_source = Some ''b''\<rparr>]),
       CACHE_TTL_FEED = None, redis_get_ok = True, redis_set_ok = True,
       now_get = 10, now_set = 20, loaded_sources = []\<rparr>
      (\<lparr>client = False, isRedisConnected = False, redis = [], memoryCache = MemoryCache_new 1000\<rparr>,
       [src ''a'' ''Alpha'' 0 0, src ''b'' ''Beta'' 1 0])
      (Inr (0, 0, False))) of JsonCards cs \<Rightarrow> cs | _ \<Rightarrow> []) = [''a'']
   \<and> map_of (cache (memoryCache (fst (snd (feed_handler
      \<lparr>toFixed3 = (\<lambda>r. ''0.000''), JSON_parses = (\<lambda>s. True),
       JSON_stringify = (\<lambda>cs. concat (map articleId cs)), parseInt = (\<lambda>s. None),
       getArticlesBySources = (\<lambda>ids. Inr [\<lparr>art_url = ''u1'', art_title = ''t'', art_urlToImage = ''i'',
          art_publishedAt = ''p'', art_description = ''d'', art_source = Some ''b''\<rparr>]),
       CACHE_TTL_FEED = None, redis_get_ok = True, redis_set_ok = True,
       now_get = 10, now_set = 20, loaded_sources = []\<rparr>
      (\<lparr>client = False, isRedisConnected = False, redis = [], memoryCache = MemoryCache_new 1000\<rparr>,
       [src ''a'' ''Alpha'' 0 0, src ''b'' ''Beta'' 1 0])
      (Inr (0, 0, False))))))) ''feed:0.000:0.000''
     = Some \<lparr>item_value = Str ''u1'', expires = Some 1800020\<rparr>"
  using feed_provider_failure_and_caching [of
      "\<lparr>toFixed3 = (\<lambda>r. ''0.000''), JSON_parses = (\<lambda>s. True),
       JSON_stringify = (\<lambda>cs. concat (map articleId cs)), parseInt = (\<lambda>s. None),
       getArticlesBySources = (\<lambda>ids. Inl (Error ''NewsAPI service temporarily unavailable'')),
       CACHE_TTL_FEED = None, redis_get_ok = True, redis_set_ok = True,
       now_get = 10, now_set = 20, loaded_sources = []\<rparr>"
      "(\<lparr>client = False, isRedisConnected = False, redis = [], memoryCache = MemoryCache_new 1000\<rparr>,
       [src ''a'' ''Alpha'' 0 0, src ''b'' ''Beta'' 1 0])"
      0 0 False "Error ''NewsAPI service temporarily unavailable''" "[]"]
    feed_provider_failure_and_caching [of
      "\<lparr>toFixed3 = (\<lambda>r. ''0.000''), JSON_parses = (\<lambda>s. True),
       JSON_stringify = (\<lambda>cs. concat (map articleId cs)), parseInt = (\<lambda>s. None),
       getArticlesBySources = (\<lambda>ids. Inr [\<lparr>art_url = ''u1'', art_title = ''t'', art_urlToImage = ''i'',
          art_publishedAt = ''p'', art_description = ''d'', art_source = Some ''b''\<rparr>]),
       CACHE_TTL_FEED = None, redis_get_ok = True, redis_set_ok = True,
       now_get = 10, now_set = 20, loaded_sources = []\<rparr>"
      "(\<lparr>client = False, isRedisConnected = False, redis = [], memoryCache = MemoryCache_new 1000\<rparr>,
       [src ''a'' ''Alpha'' 0 0, src ''b'' ''Beta'' 1 0])"
      0 0 False "Error ''x''"
      "[\<lparr>art_url = ''u1'', art_title = ''t'', art_urlToImage = ''i'',
          art_publishedAt = ''p'', art_description = ''d'', art_source = Some ''b''\<rparr>]"]
  by (simp add: past_cache_def feed_read_def getCache_def memory_get_def MemoryCache_get_def
      MemoryCache_new_def selected_for_request_def two_selected truthy_value_def cacheKey_def
      feed_ttl_def truthy_str_def truthy_num_def make_card_def setCache_def memory_set_def
      value_length_def MemoryCache_set_def Let_def)

end
